theory Spec2Isabelle
  imports Main "HOL-Library.Multiset" "HOL-Library.Monad_Syntax"
begin

chapter \<open>The embedding of \<^verbatim>\<open>easyargs.h\<close>\<close>

section \<open>EasyArgs: values, platform parameters and declarations\<close>

text \<open>
  The header \<^verbatim>\<open>easyargs.h\<close> is expanded by the C preprocessor from three lists of
  declarations, \<^verbatim>\<open>REQUIRED_ARGS\<close>, \<^verbatim>\<open>OPTIONAL_ARGS\<close> and \<^verbatim>\<open>BOOLEAN_ARGS\<close>. The embedding
  takes the three lists as data and follows each expansion of them.

  A C string is the list of its characters before the terminating NUL, a \<^verbatim>\<open>char*\<close> that
  may be \<^verbatim>\<open>NULL\<close> is a \<open>string option\<close>, and a pointer that was advanced inside a string
  is the remaining suffix. Every \<^verbatim>\<open>fprintf(stderr, ...)\<close> appends one line (without its
  newline) to a list of lines.
\<close>

datatype ctype =
  T_string | T_char | T_int | T_uint | T_long | T_ulong | T_llong | T_ullong
  | T_size | T_float | T_double

text \<open>
  The value of a field of \<^verbatim>\<open>args_t\<close>. The integer types share \<open>V_int\<close>: a converter
  only returns a value after its range check, so the cast to the return type keeps the
  number. Floating-point values are elements of a type parameter \<open>'f\<close> with a zero; the
  embedding never computes with them.
\<close>

datatype 'f val =
  V_str "string option" | V_char char | V_int int | V_float 'f | V_bool bool

text \<open>
  What the header takes from the C implementation: the limits of \<^verbatim>\<open><limits.h>\<close> and
  \<^verbatim>\<open><stdint.h>\<close>, the floating-point scans \<^verbatim>\<open>strtof\<close> and \<^verbatim>\<open>strtod\<close> (result, the unread rest
  of the text, and whether \<^verbatim>\<open>errno\<close> became \<^verbatim>\<open>ERANGE\<close>), and what \<^verbatim>\<open>printf\<close> does at a conversion
  specification other than \<^verbatim>\<open>%%\<close>, \<^verbatim>\<open>%s\<close> and \<^verbatim>\<open>%*s\<close>: from the format after the \<^verbatim>\<open>%\<close> and the
  arguments not yet used, the text written, the number of characters of the format that
  the specification takes, and the arguments left; \<open>None\<close> where the call is undefined.
\<close>

record 'f platform =
  UINT_MAX :: int
  ULONG_MAX :: int
  ULLONG_MAX :: int
  SIZE_MAX :: int
  INT_MIN :: int
  INT_MAX :: int
  LONG_MIN :: int
  LONG_MAX :: int
  LLONG_MIN :: int
  LLONG_MAX :: int
  strtof :: "string \<Rightarrow> 'f \<times> string \<times> bool"
  strtod :: "string \<Rightarrow> 'f \<times> string \<times> bool"
  printf_conversion :: "string \<Rightarrow> 'f val list \<Rightarrow> (string \<times> nat \<times> 'f val list) option"


text \<open>
  The usual 64-bit platform (LP64), cut down for evaluation: its floating-point scans read
  nothing, and it renders no conversion specification of its own.
\<close>

definition lp64 :: "int platform" where
  "lp64 = \<lparr> UINT_MAX = 4294967295, ULONG_MAX = 18446744073709551615,
     ULLONG_MAX = 18446744073709551615, SIZE_MAX = 18446744073709551615,
     INT_MIN = - 2147483648, INT_MAX = 2147483647,
     LONG_MIN = - 9223372036854775808, LONG_MAX = 9223372036854775807,
     LLONG_MIN = - 9223372036854775808, LLONG_MAX = 9223372036854775807,
     strtof = (\<lambda>s. (0, s, False)), strtod = (\<lambda>s. (0, s, False)),
     printf_conversion = (\<lambda>fmt args. None) \<rparr>"

section \<open>Helper functions and the C library's integer scans\<close>

text \<open>
  Modelled from the spec: the C library's \<^verbatim>\<open>isspace\<close>, which the repository calls and does not
  define ("skips leading whitespace"), in the C locale: the space and the controls from tab
  to carriage return.
\<close>

definition isspace :: "char \<Rightarrow> bool" where
  "isspace c \<longleftrightarrow> c = CHR '' '' \<or> (9 \<le> (of_char c :: nat) \<and> (of_char c :: nat) \<le> 13)"

text \<open>The loop of \<^verbatim>\<open>easyargs_skip_leading\<close>: advance while the character is a space.\<close>

fun skip_spaces :: "string \<Rightarrow> string" where
  "skip_spaces [] = []"
| "skip_spaces (c # cs) = (if isspace c then skip_spaces cs else c # cs)"

definition easyargs_skip_leading :: "string option \<Rightarrow> string option" where
  "easyargs_skip_leading s = (case s of None \<Rightarrow> None | Some t \<Rightarrow> Some (skip_spaces t))"

text \<open>
  Modelled from the spec: the scan that the C library's \<^verbatim>\<open>strtoull\<close> and \<^verbatim>\<open>strtoll\<close> make with
  base 0; the repository calls the two functions and does not define them ("a
  base-detecting integer scan (supports decimal, and \<^verbatim>\<open>0x\<close>/\<^verbatim>\<open>0\<close> prefixes per standard C-style
  base rules)"). The scan skips white space, reads an optional sign, detects the base
  (\<^verbatim>\<open>0x\<close> or \<^verbatim>\<open>0X\<close> before a hexadecimal digit: 16; a leading \<^verbatim>\<open>0\<close>: 8; otherwise 10) and
  reads the longest run of digits of that base. \<open>strto_scan\<close> gives the sign, the
  magnitude and the unread rest, or \<open>None\<close> when no digit was read.
\<close>

definition digit_val :: "char \<Rightarrow> nat" where
  "digit_val c = (let n = (of_char c :: nat) in
     if 48 \<le> n \<and> n \<le> 57 then n - 48
     else if 97 \<le> n \<and> n \<le> 122 then n - 87
     else if 65 \<le> n \<and> n \<le> 90 then n - 55
     else 36)"

definition is_digit :: "nat \<Rightarrow> char \<Rightarrow> bool" where
  "is_digit base c \<longleftrightarrow> digit_val c < base"

fun digits_value :: "nat \<Rightarrow> nat \<Rightarrow> string \<Rightarrow> nat" where
  "digits_value base acc [] = acc"
| "digits_value base acc (c # cs) = digits_value base (acc * base + digit_val c) cs"

fun scan_sign :: "string \<Rightarrow> bool \<times> string" where
  "scan_sign [] = (False, [])"
| "scan_sign (c # cs) =
     (if c = CHR ''-'' then (True, cs) else if c = CHR ''+'' then (False, cs) else (False, c # cs))"

fun scan_base :: "string \<Rightarrow> nat \<times> string" where
  "scan_base (z # x # h # cs) =
     (if z = CHR ''0'' \<and> (x = CHR ''x'' \<or> x = CHR ''X'') \<and> is_digit 16 h then (16, h # cs)
      else if z = CHR ''0'' then (8, z # x # h # cs)
      else (10, z # x # h # cs))"
| "scan_base (z # cs) = (if z = CHR ''0'' then (8, z # cs) else (10, z # cs))"
| "scan_base [] = (10, [])"

definition strto_scan :: "string \<Rightarrow> (bool \<times> nat \<times> string) option" where
  "strto_scan s =
     (let (neg, s1) = scan_sign (skip_spaces s);
          (base, s2) = scan_base s1;
          ds = takeWhile (is_digit base) s2
      in if ds = [] then None
         else Some (neg, digits_value base 0 ds, dropWhile (is_digit base) s2))"

text \<open>
  Modelled from the spec: the C library's \<^verbatim>\<open>strtoull\<close> and \<^verbatim>\<open>strtoll\<close> with base 0 ("fails if
  the parsed magnitude exceeds the target width's maximum", "fails if trailing characters
  remain unconsumed"). The results are (value, unread rest, \<^verbatim>\<open>errno == ERANGE\<close>). Without a
  conversion the value is 0 and the rest is the whole text. A magnitude out of range gives
  the nearest limit and \<^verbatim>\<open>ERANGE\<close>; \<^verbatim>\<open>strtoull\<close> negates a signed magnitude in the unsigned
  type.
\<close>

definition strtoull :: "'f platform \<Rightarrow> string \<Rightarrow> int \<times> string \<times> bool" where
  "strtoull P s =
     (case strto_scan s of
        None \<Rightarrow> (0, s, False)
      | Some (neg, m, rest) \<Rightarrow>
          if int m > ULLONG_MAX P then (ULLONG_MAX P, rest, True)
          else if neg then ((- int m) mod (ULLONG_MAX P + 1), rest, False)
          else (int m, rest, False))"

definition strtoll :: "'f platform \<Rightarrow> string \<Rightarrow> int \<times> string \<times> bool" where
  "strtoll P s =
     (case strto_scan s of
        None \<Rightarrow> (0, s, False)
      | Some (neg, m, rest) \<Rightarrow>
          if neg then (if - int m < LLONG_MIN P then (LLONG_MIN P, rest, True)
                       else (- int m, rest, False))
          else (if int m > LLONG_MAX P then (LLONG_MAX P, rest, True)
                else (int m, rest, False)))"

section \<open>The converters\<close>

text \<open>
  A converter returns its value, the flag it stored in \<^verbatim>\<open>*ok\<close>, and the lines it wrote to
  \<^verbatim>\<open>stderr\<close>.
\<close>

type_synonym 'f conv = "'f val \<times> bool \<times> string list"

definition squote :: "string \<Rightarrow> string" where
  "squote s = CHR 0x27 # s @ [CHR 0x27]"

definition easyargs_parse_str :: "string option \<Rightarrow> 'f conv" where
  "easyargs_parse_str text =
     (case text of
        None \<Rightarrow> (V_str None, False, [''Error: null string value.''])
      | Some s \<Rightarrow>
          if s = [] then (V_str None, False, [''Error: empty string value not allowed.''])
          else (V_str (Some s), True, []))"

definition easyargs_parse_char :: "string option \<Rightarrow> 'f conv" where
  "easyargs_parse_char text =
     (case text of
        None \<Rightarrow> (V_char (CHR 0x00), False, [''Error: null input for character argument.''])
      | Some s \<Rightarrow>
          if s = [] \<or> tl s \<noteq> []
          then (V_char (CHR 0x00), False,
                [''Error: '' @ squote s @ '' is not a valid character.''])
          else (V_char (hd s), True, []))"

text \<open>The body of \<^verbatim>\<open>DEFINE_UNSIGNED_INTEGER_PARSER(funcname, rettype, maxval, typename)\<close>.\<close>

definition unsigned_integer_parser ::
  "'f platform \<Rightarrow> int \<Rightarrow> string \<Rightarrow> string option \<Rightarrow> 'f conv" where
  "unsigned_integer_parser P maxval typename text =
     (case text of
        None \<Rightarrow> (V_int 0, False, [''Error: null input for '' @ typename @ ''.''])
      | Some s0 \<Rightarrow>
          let s = skip_spaces s0 in
          if s = [] then (V_int 0, False, [''Error: empty input for '' @ typename @ ''.''])
          else if hd s = CHR ''-''
          then (V_int 0, False,
                [''Error: '' @ squote s @ '' negative value not allowed for '' @ typename @ ''.''])
          else
            let (v, rest, erange) = strtoull P s in
            if rest \<noteq> []
            then (V_int 0, False,
                  [''Error: '' @ squote s @ '' is not a valid '' @ typename @ ''.''])
            else if erange \<or> v > maxval
            then (V_int 0, False,
                  [''Error: '' @ squote s @ '' is out of range for '' @ typename @ ''.''])
            else (V_int v, True, []))"

definition easyargs_parse_uint :: "'f platform \<Rightarrow> string option \<Rightarrow> 'f conv" where
  "easyargs_parse_uint P = unsigned_integer_parser P (UINT_MAX P) ''unsigned int''"

definition easyargs_parse_ulong :: "'f platform \<Rightarrow> string option \<Rightarrow> 'f conv" where
  "easyargs_parse_ulong P = unsigned_integer_parser P (ULONG_MAX P) ''unsigned long''"

definition easyargs_parse_ullong :: "'f platform \<Rightarrow> string option \<Rightarrow> 'f conv" where
  "easyargs_parse_ullong P = unsigned_integer_parser P (ULLONG_MAX P) ''unsigned long long''"

definition easyargs_parse_size_t :: "'f platform \<Rightarrow> string option \<Rightarrow> 'f conv" where
  "easyargs_parse_size_t P = unsigned_integer_parser P (SIZE_MAX P) ''size_t''"

text \<open>The body of \<^verbatim>\<open>DEFINE_SIGNED_INTEGER_PARSER(funcname, rettype, minval, maxval, typename)\<close>.\<close>

definition signed_integer_parser ::
  "'f platform \<Rightarrow> int \<Rightarrow> int \<Rightarrow> string \<Rightarrow> string option \<Rightarrow> 'f conv" where
  "signed_integer_parser P minval maxval typename text =
     (case text of
        None \<Rightarrow> (V_int 0, False, [''Error: null input for '' @ typename @ ''.''])
      | Some s0 \<Rightarrow>
          let s = skip_spaces s0 in
          if s = [] then (V_int 0, False, [''Error: empty input for '' @ typename @ ''.''])
          else
            let (v, rest, erange) = strtoll P s in
            if rest \<noteq> []
            then (V_int 0, False,
                  [''Error: '' @ squote s @ '' is not a valid '' @ typename @ ''.''])
            else if erange \<or> v < minval \<or> v > maxval
            then (V_int 0, False,
                  [''Error: '' @ squote s @ '' is out of range for '' @ typename @ ''.''])
            else (V_int v, True, []))"

definition easyargs_parse_int :: "'f platform \<Rightarrow> string option \<Rightarrow> 'f conv" where
  "easyargs_parse_int P = signed_integer_parser P (INT_MIN P) (INT_MAX P) ''int''"

definition easyargs_parse_long :: "'f platform \<Rightarrow> string option \<Rightarrow> 'f conv" where
  "easyargs_parse_long P = signed_integer_parser P (LONG_MIN P) (LONG_MAX P) ''long''"

definition easyargs_parse_llong :: "'f platform \<Rightarrow> string option \<Rightarrow> 'f conv" where
  "easyargs_parse_llong P = signed_integer_parser P (LLONG_MIN P) (LLONG_MAX P) ''long long''"

definition easyargs_parse_float :: "('f::zero) platform \<Rightarrow> string option \<Rightarrow> 'f conv" where
  "easyargs_parse_float P text =
     (case text of
        None \<Rightarrow> (V_float 0, False, [''Error: null input for float.''])
      | Some s0 \<Rightarrow>
          let s = skip_spaces s0 in
          if s = [] then (V_float 0, False, [''Error: empty input for float.''])
          else
            let (v, rest, erange) = strtof P s in
            if erange
            then (V_float 0, False,
                  [''Error: '' @ squote s @ '' is out of range for type float.''])
            else if rest \<noteq> []
            then (V_float 0, False, [''Error: '' @ squote s @ '' is not a valid float.''])
            else (V_float v, True, []))"

definition easyargs_parse_double :: "('f::zero) platform \<Rightarrow> string option \<Rightarrow> 'f conv" where
  "easyargs_parse_double P text =
     (case text of
        None \<Rightarrow> (V_float 0, False, [''Error: null input for double.''])
      | Some s0 \<Rightarrow>
          let s = skip_spaces s0 in
          if s = [] then (V_float 0, False, [''Error: empty input for double.''])
          else
            let (v, rest, erange) = strtod P s in
            if erange
            then (V_float 0, False,
                  [''Error: '' @ squote s @ '' is out of range for type double.''])
            else if rest \<noteq> []
            then (V_float 0, False, [''Error: '' @ squote s @ '' is not a valid double.''])
            else (V_float v, True, []))"

text \<open>
  The typed macros (\<^verbatim>\<open>REQUIRED_INT_ARG\<close>, \<^verbatim>\<open>OPTIONAL_STRING_ARG\<close>, ...) bind each C type to its
  converter; \<open>zero_of\<close> is \<^verbatim>\<open>(type) 0\<close>.
\<close>

fun parser_of :: "('f::zero) platform \<Rightarrow> ctype \<Rightarrow> string option \<Rightarrow> 'f conv" where
  "parser_of P T_string = easyargs_parse_str"
| "parser_of P T_char = easyargs_parse_char"
| "parser_of P T_int = easyargs_parse_int P"
| "parser_of P T_uint = easyargs_parse_uint P"
| "parser_of P T_long = easyargs_parse_long P"
| "parser_of P T_ulong = easyargs_parse_ulong P"
| "parser_of P T_llong = easyargs_parse_llong P"
| "parser_of P T_ullong = easyargs_parse_ullong P"
| "parser_of P T_size = easyargs_parse_size_t P"
| "parser_of P T_float = easyargs_parse_float P"
| "parser_of P T_double = easyargs_parse_double P"

fun zero_of :: "ctype \<Rightarrow> ('f::zero) val" where
  "zero_of T_string = V_str None"
| "zero_of T_char = V_char (CHR 0x00)"
| "zero_of T_float = V_float 0"
| "zero_of T_double = V_float 0"
| "zero_of _ = V_int 0"

section \<open>The converters, with every read through the text pointer\<close>

text \<open>
  The converters once more, this time with each read of memory as a step that can go wrong.
  A read \<^verbatim>\<open>p[i]\<close> gives a character of the text or its terminating NUL; through \<^verbatim>\<open>NULL\<close>, or
  beyond the terminator, C leaves it undefined, which is \<open>None\<close> here. The bodies follow the
  statements of the source in their order, so that a converter's result is \<open>None\<close> as soon
  as one of its reads is undefined. The converters call nothing that ends the program
  (\<^verbatim>\<open>exit\<close>, \<^verbatim>\<open>abort\<close>), so an undefined read is the only way not to return.
\<close>

datatype cell = Terminator | Character char

definition read_at :: "string option \<Rightarrow> nat \<Rightarrow> cell option" where
  "read_at p i =
     (case p of
        None \<Rightarrow> None
      | Some s \<Rightarrow>
          if i < length s then Some (Character (s ! i))
          else if i = length s then Some Terminator
          else None)"

text \<open>
  The loop \<^verbatim>\<open>while (isspace((unsigned char)*s)) ++s;\<close> of \<^verbatim>\<open>easyargs_skip_leading\<close>, which
  reads \<^verbatim>\<open>*s\<close> before every step, and the function with its test \<^verbatim>\<open>if (!s) return s;\<close>.
\<close>

function skip_leading_loop :: "string option \<Rightarrow> string option option" where
  "skip_leading_loop s =
     (case read_at s 0 of
        None \<Rightarrow> None
      | Some Terminator \<Rightarrow> Some s
      | Some (Character c) \<Rightarrow> if isspace c then skip_leading_loop (map_option tl s) else Some s)"
  by pat_completeness auto

termination
  by (relation "measure (\<lambda>s. case s of None \<Rightarrow> 0 | Some t \<Rightarrow> length t)")
     (auto simp: read_at_def split: option.splits if_splits)

lemmas [simp del] = skip_leading_loop.simps

definition easyargs_skip_leading_mem :: "string option \<Rightarrow> string option option" where
  "easyargs_skip_leading_mem s = (if s = None then Some s else skip_leading_loop s)"

text \<open>
  Modelled from the spec: the C library's scans, which the repository calls and does not define,
  on a pointer. They read the text they are given, so \<^verbatim>\<open>NULL\<close> is undefined; \<^verbatim>\<open>end\<close> is left
  pointing at the unread rest. The floating-point scans are the platform's.
\<close>

definition strtoull_mem ::
  "'f platform \<Rightarrow> string option \<Rightarrow> (int \<times> string option \<times> bool) option" where
  "strtoull_mem P text =
     (case text of
        None \<Rightarrow> None
      | Some s \<Rightarrow> (let (v, rest, erange) = strtoull P s in Some (v, Some rest, erange)))"

definition strtoll_mem ::
  "'f platform \<Rightarrow> string option \<Rightarrow> (int \<times> string option \<times> bool) option" where
  "strtoll_mem P text =
     (case text of
        None \<Rightarrow> None
      | Some s \<Rightarrow> (let (v, rest, erange) = strtoll P s in Some (v, Some rest, erange)))"

definition strtof_mem ::
  "'f platform \<Rightarrow> string option \<Rightarrow> ('f \<times> string option \<times> bool) option" where
  "strtof_mem P text =
     (case text of
        None \<Rightarrow> None
      | Some s \<Rightarrow> (let (v, rest, erange) = strtof P s in Some (v, Some rest, erange)))"

definition strtod_mem ::
  "'f platform \<Rightarrow> string option \<Rightarrow> ('f \<times> string option \<times> bool) option" where
  "strtod_mem P text =
     (case text of
        None \<Rightarrow> None
      | Some s \<Rightarrow> (let (v, rest, erange) = strtod P s in Some (v, Some rest, erange)))"

text \<open>
  In the bodies below, \<open>s \<leftarrow> text\<close> is the read that \<^verbatim>\<open>fprintf\<close> makes of the text for
  \<^verbatim>\<open>'%s'\<close>, undefined for \<^verbatim>\<open>NULL\<close>.
\<close>

definition easyargs_parse_str_mem :: "string option \<Rightarrow> 'f conv option" where
  "easyargs_parse_str_mem text =
     (if text = None then Some (V_str None, False, [''Error: null string value.''])
      else do {
        c \<leftarrow> read_at text 0;
        if c = Terminator
        then Some (V_str None, False, [''Error: empty string value not allowed.''])
        else Some (V_str text, True, [])
      })"

definition easyargs_parse_char_mem :: "string option \<Rightarrow> 'f conv option" where
  "easyargs_parse_char_mem text =
     (if text = None
      then Some (V_char (CHR 0x00), False, [''Error: null input for character argument.''])
      else do {
        c0 \<leftarrow> read_at text 0;
        bad \<leftarrow> (if c0 = Terminator then Some True
                else do { c1 \<leftarrow> read_at text 1; Some (c1 \<noteq> Terminator) });
        if bad
        then do {
          s \<leftarrow> text;
          Some (V_char (CHR 0x00), False,
                [''Error: '' @ squote s @ '' is not a valid character.''])
        }
        else Some (V_char (case c0 of Character c \<Rightarrow> c | Terminator \<Rightarrow> CHR 0x00), True, [])
      })"

definition unsigned_integer_parser_mem ::
  "'f platform \<Rightarrow> int \<Rightarrow> string \<Rightarrow> string option \<Rightarrow> 'f conv option" where
  "unsigned_integer_parser_mem P maxval typename text0 =
     (if text0 = None
      then Some (V_int 0, False, [''Error: null input for '' @ typename @ ''.''])
      else do {
        text \<leftarrow> easyargs_skip_leading_mem text0;
        c \<leftarrow> read_at text 0;
        if c = Terminator
        then Some (V_int 0, False, [''Error: empty input for '' @ typename @ ''.''])
        else if c = Character (CHR ''-'')
        then do {
          s \<leftarrow> text;
          Some (V_int 0, False,
                [''Error: '' @ squote s @ '' negative value not allowed for '' @ typename @ ''.''])
        }
        else do {
          (v, end, erange) \<leftarrow> strtoull_mem P text;
          e \<leftarrow> read_at end 0;
          if e \<noteq> Terminator
          then do {
            s \<leftarrow> text;
            Some (V_int 0, False,
                  [''Error: '' @ squote s @ '' is not a valid '' @ typename @ ''.''])
          }
          else if erange \<or> v > maxval
          then do {
            s \<leftarrow> text;
            Some (V_int 0, False,
                  [''Error: '' @ squote s @ '' is out of range for '' @ typename @ ''.''])
          }
          else Some (V_int v, True, [])
        }
      })"

definition signed_integer_parser_mem ::
  "'f platform \<Rightarrow> int \<Rightarrow> int \<Rightarrow> string \<Rightarrow> string option \<Rightarrow> 'f conv option" where
  "signed_integer_parser_mem P minval maxval typename text0 =
     (if text0 = None
      then Some (V_int 0, False, [''Error: null input for '' @ typename @ ''.''])
      else do {
        text \<leftarrow> easyargs_skip_leading_mem text0;
        c \<leftarrow> read_at text 0;
        if c = Terminator
        then Some (V_int 0, False, [''Error: empty input for '' @ typename @ ''.''])
        else do {
          (v, end, erange) \<leftarrow> strtoll_mem P text;
          e \<leftarrow> read_at end 0;
          if e \<noteq> Terminator
          then do {
            s \<leftarrow> text;
            Some (V_int 0, False,
                  [''Error: '' @ squote s @ '' is not a valid '' @ typename @ ''.''])
          }
          else if erange \<or> v < minval \<or> v > maxval
          then do {
            s \<leftarrow> text;
            Some (V_int 0, False,
                  [''Error: '' @ squote s @ '' is out of range for '' @ typename @ ''.''])
          }
          else Some (V_int v, True, [])
        }
      })"

definition easyargs_parse_float_mem ::
  "('f::zero) platform \<Rightarrow> string option \<Rightarrow> 'f conv option" where
  "easyargs_parse_float_mem P text0 =
     (if text0 = None then Some (V_float 0, False, [''Error: null input for float.''])
      else do {
        text \<leftarrow> easyargs_skip_leading_mem text0;
        c \<leftarrow> read_at text 0;
        if c = Terminator then Some (V_float 0, False, [''Error: empty input for float.''])
        else do {
          (v, end, erange) \<leftarrow> strtof_mem P text;
          if erange
          then do {
            s \<leftarrow> text;
            Some (V_float 0, False,
                  [''Error: '' @ squote s @ '' is out of range for type float.''])
          }
          else do {
            e \<leftarrow> read_at end 0;
            if e \<noteq> Terminator
            then do {
              s \<leftarrow> text;
              Some (V_float 0, False, [''Error: '' @ squote s @ '' is not a valid float.''])
            }
            else Some (V_float v, True, [])
          }
        }
      })"

definition easyargs_parse_double_mem ::
  "('f::zero) platform \<Rightarrow> string option \<Rightarrow> 'f conv option" where
  "easyargs_parse_double_mem P text0 =
     (if text0 = None then Some (V_float 0, False, [''Error: null input for double.''])
      else do {
        text \<leftarrow> easyargs_skip_leading_mem text0;
        c \<leftarrow> read_at text 0;
        if c = Terminator then Some (V_float 0, False, [''Error: empty input for double.''])
        else do {
          (v, end, erange) \<leftarrow> strtod_mem P text;
          if erange
          then do {
            s \<leftarrow> text;
            Some (V_float 0, False,
                  [''Error: '' @ squote s @ '' is out of range for type double.''])
          }
          else do {
            e \<leftarrow> read_at end 0;
            if e \<noteq> Terminator
            then do {
              s \<leftarrow> text;
              Some (V_float 0, False, [''Error: '' @ squote s @ '' is not a valid double.''])
            }
            else Some (V_float v, True, [])
          }
        }
      })"

text \<open>The instances of the two macros, and the converter of each type.\<close>

definition easyargs_parse_uint_mem :: "'f platform \<Rightarrow> string option \<Rightarrow> 'f conv option" where
  "easyargs_parse_uint_mem P = unsigned_integer_parser_mem P (UINT_MAX P) ''unsigned int''"

definition easyargs_parse_ulong_mem :: "'f platform \<Rightarrow> string option \<Rightarrow> 'f conv option" where
  "easyargs_parse_ulong_mem P = unsigned_integer_parser_mem P (ULONG_MAX P) ''unsigned long''"

definition easyargs_parse_ullong_mem :: "'f platform \<Rightarrow> string option \<Rightarrow> 'f conv option" where
  "easyargs_parse_ullong_mem P = unsigned_integer_parser_mem P (ULLONG_MAX P) ''unsigned long long''"

definition easyargs_parse_size_t_mem :: "'f platform \<Rightarrow> string option \<Rightarrow> 'f conv option" where
  "easyargs_parse_size_t_mem P = unsigned_integer_parser_mem P (SIZE_MAX P) ''size_t''"

definition easyargs_parse_int_mem :: "'f platform \<Rightarrow> string option \<Rightarrow> 'f conv option" where
  "easyargs_parse_int_mem P = signed_integer_parser_mem P (INT_MIN P) (INT_MAX P) ''int''"

definition easyargs_parse_long_mem :: "'f platform \<Rightarrow> string option \<Rightarrow> 'f conv option" where
  "easyargs_parse_long_mem P = signed_integer_parser_mem P (LONG_MIN P) (LONG_MAX P) ''long''"

definition easyargs_parse_llong_mem :: "'f platform \<Rightarrow> string option \<Rightarrow> 'f conv option" where
  "easyargs_parse_llong_mem P = signed_integer_parser_mem P (LLONG_MIN P) (LLONG_MAX P) ''long long''"

fun parser_of_mem :: "('f::zero) platform \<Rightarrow> ctype \<Rightarrow> string option \<Rightarrow> 'f conv option" where
  "parser_of_mem P T_string = easyargs_parse_str_mem"
| "parser_of_mem P T_char = easyargs_parse_char_mem"
| "parser_of_mem P T_int = easyargs_parse_int_mem P"
| "parser_of_mem P T_uint = easyargs_parse_uint_mem P"
| "parser_of_mem P T_long = easyargs_parse_long_mem P"
| "parser_of_mem P T_ulong = easyargs_parse_ulong_mem P"
| "parser_of_mem P T_llong = easyargs_parse_llong_mem P"
| "parser_of_mem P T_ullong = easyargs_parse_ullong_mem P"
| "parser_of_mem P T_size = easyargs_parse_size_t_mem P"
| "parser_of_mem P T_float = easyargs_parse_float_mem P"
| "parser_of_mem P T_double = easyargs_parse_double_mem P"

section \<open>Declarations and the container\<close>

text \<open>
  One record per macro: \<^verbatim>\<open>REQUIRED_ARG(type, name, label, description, parser)\<close>,
  \<^verbatim>\<open>OPTIONAL_ARG(type, name, default, flag, label, description, formatter, parser)\<close> and
  \<^verbatim>\<open>BOOLEAN_ARG(name, flag, description)\<close>; the parser is the one of the type.
\<close>

record required_arg =
  r_type :: ctype
  r_name :: string
  r_label :: string
  r_description :: string

record 'f optional_arg =
  o_type :: ctype
  o_name :: string
  o_default :: "'f val"
  o_flag :: string
  o_label :: string
  o_description :: string
  o_formatter :: string

record boolean_arg =
  b_name :: string
  b_flag :: string
  b_description :: string

record 'f decls =
  REQUIRED_ARGS :: "required_arg list"
  OPTIONAL_ARGS :: "'f optional_arg list"
  BOOLEAN_ARGS :: "boolean_arg list"

definition REQUIRED_ARG_COUNT :: "'f decls \<Rightarrow> int" where
  "REQUIRED_ARG_COUNT D = int (length (REQUIRED_ARGS D))"

definition OPTIONAL_ARG_COUNT :: "'f decls \<Rightarrow> int" where
  "OPTIONAL_ARG_COUNT D = int (length (OPTIONAL_ARGS D))"

definition BOOLEAN_ARG_COUNT :: "'f decls \<Rightarrow> int" where
  "BOOLEAN_ARG_COUNT D = int (length (BOOLEAN_ARGS D))"

text \<open>The struct \<^verbatim>\<open>args_t\<close>: one field per declaration, looked up by its name.\<close>

type_synonym 'f args_t = "string \<rightharpoonup> 'f val"

text \<open>
  \<^verbatim>\<open>make_default_args\<close>: the designated initializers in the order of the expansion,
  required, optional, boolean.
\<close>

definition make_default_args :: "('f::zero) decls \<Rightarrow> 'f args_t" where
  "make_default_args D =
     foldl (\<lambda>a b. a(b_name b \<mapsto> V_bool False))
       (foldl (\<lambda>a d. a(o_name d \<mapsto> o_default d))
          (foldl (\<lambda>a d. a(r_name d \<mapsto> zero_of (r_type d))) Map.empty (REQUIRED_ARGS D))
          (OPTIONAL_ARGS D))
       (BOOLEAN_ARGS D)"

section \<open>The parser\<close>

text \<open>
  How a piece of \<^verbatim>\<open>parse_args\<close> ends: \<open>Return r a e\<close> is \<^verbatim>\<open>return r\<close> with the container
  \<open>a\<close> and the lines \<open>e\<close> on \<^verbatim>\<open>stderr\<close>; \<open>Continue i a e\<close> goes on at index \<open>i\<close>;
  \<open>Undefined\<close> is a read of \<^verbatim>\<open>argv\<close> past its end, which C leaves undefined.
\<close>

datatype 'f flow =
  Undefined | Return int "'f args_t" "string list" | Continue nat "'f args_t" "string list"

text \<open>
  The expansion of \<^verbatim>\<open>REQUIRED_ARGS\<close> in \<^verbatim>\<open>parse_args\<close>: each declaration converts
  \<^verbatim>\<open>argv[i++]\<close>, stores the result in its field and returns 0 when the flag is not set.
\<close>

fun required_args ::
  "('f::zero) platform \<Rightarrow> required_arg list \<Rightarrow> string list \<Rightarrow> nat \<Rightarrow> 'f args_t \<Rightarrow> string list
     \<Rightarrow> 'f flow" where
  "required_args P [] argv i a e = Continue i a e"
| "required_args P (d # ds) argv i a e =
     (if i < length argv then
        (let (v, ok, m) = parser_of P (r_type d) (Some (argv ! i));
             a' = a(r_name d \<mapsto> v)
         in if \<not> ok then Return 0 a' (e @ m)
            else required_args P ds argv (i + 1) a' (e @ m))
      else Undefined)"

text \<open>
  One round of the \<^verbatim>\<open>for\<close> loop at index \<open>i\<close>. The expansions of \<^verbatim>\<open>OPTIONAL_ARGS\<close> and
  \<^verbatim>\<open>BOOLEAN_ARGS\<close> are chains of \<^verbatim>\<open>if (!strcmp(argv[i], flag))\<close> whose bodies all end in
  \<^verbatim>\<open>return\<close> or \<^verbatim>\<open>continue\<close>, so the first declaration whose flag is the token decides.
  \<open>Continue\<close> carries the index after the loop's \<^verbatim>\<open>i++\<close>.
\<close>

definition loop_body ::
  "('f::zero) platform \<Rightarrow> 'f decls \<Rightarrow> int \<Rightarrow> string list \<Rightarrow> nat \<Rightarrow> 'f args_t \<Rightarrow> string list
     \<Rightarrow> 'f flow" where
  "loop_body P D argc argv i a e =
     (if i < length argv then
        (case find (\<lambda>d. argv ! i = o_flag d) (OPTIONAL_ARGS D) of
           Some d \<Rightarrow>
             if int i + 1 \<ge> argc
             then Return 0 a
                    (e @ [''Error: option '' @ squote (o_flag d) @ '' requires a value.''])
             else if i + 1 < length argv then
               (let (v, ok, m) = parser_of P (o_type d) (Some (argv ! (i + 1)));
                    a' = a(o_name d \<mapsto> v)
                in if \<not> ok then Return 0 a' (e @ m) else Continue (i + 2) a' (e @ m))
             else Undefined
         | None \<Rightarrow>
             (case find (\<lambda>b. argv ! i = b_flag b) (BOOLEAN_ARGS D) of
                Some b \<Rightarrow> Continue (i + 1) (a(b_name b \<mapsto> V_bool True)) e
              | None \<Rightarrow>
                  Continue (i + 1) a
                    (e @ [''Warning: Ignoring invalid argument '' @ squote (argv ! i)])))
      else Undefined)"

lemma loop_body_advances: "loop_body P D argc argv i a e = Continue j a' e' \<Longrightarrow> i < j"
  by (auto simp: loop_body_def Let_def split: if_splits option.splits prod.splits)

text \<open>The loop \<^verbatim>\<open>for (int i = 1 + REQUIRED_ARG_COUNT; i < argc; i++)\<close> and the final \<^verbatim>\<open>return 1\<close>.\<close>

function walk ::
  "('f::zero) platform \<Rightarrow> 'f decls \<Rightarrow> int \<Rightarrow> string list \<Rightarrow> nat \<Rightarrow> 'f args_t \<Rightarrow> string list
     \<Rightarrow> 'f flow" where
  "walk P D argc argv i a e =
     (if int i < argc then
        (case loop_body P D argc argv i a e of
           Continue j a' e' \<Rightarrow> walk P D argc argv j a' e'
         | r \<Rightarrow> r)
      else Return 1 a e)"
  by pat_completeness auto

termination
  by (relation "measure (\<lambda>(P, D, argc, argv, i, a, e). nat (argc - int i))")
     (auto dest: loop_body_advances)

lemmas [simp del] = walk.simps

definition parse_args ::
  "('f::zero) platform \<Rightarrow> 'f decls \<Rightarrow> int \<Rightarrow> string list option \<Rightarrow> 'f args_t \<Rightarrow> 'f flow" where
  "parse_args P D argc argv args =
     (case argv of
        None \<Rightarrow> Return 0 args [''Internal error: null args or argv.'']
      | Some av \<Rightarrow>
          if argc = 0 then Return 0 args [''Internal error: null args or argv.'']
          else if argc < 1 + REQUIRED_ARG_COUNT D
          then Return 0 args [''Not all required arguments included.'']
          else
            (case required_args P (REQUIRED_ARGS D) av 1 args [] of
               Continue i a e \<Rightarrow> walk P D argc av (nat (1 + REQUIRED_ARG_COUNT D)) a e
             | r \<Rightarrow> r))"

section \<open>The help text\<close>

text \<open>
  Modelled from the spec: the C library's \<^verbatim>\<open>printf\<close>, which the repository calls and does not
  define ("its default value rendered with the descriptor's declared numeric/string
  format"). The result is the text written, or \<open>None\<close> where C leaves the call undefined. A
  character of the format other than \<^verbatim>\<open>%\<close> is written as it stands. At a \<^verbatim>\<open>%\<close> stands a
  conversion specification: \<^verbatim>\<open>%%\<close> writes one \<^verbatim>\<open>%\<close> and takes no argument; \<^verbatim>\<open>%s\<close> writes its
  argument, a text; \<^verbatim>\<open>%*s\<close> takes the field width from an \<^verbatim>\<open>int\<close> argument and writes the
  next argument, a text, filled with spaces to that width (on the left, or on the right for
  a negative width). Every other specification is the platform's, which gives the text
  written, the number of characters of the format that the specification takes, and the
  arguments left. A specification with no argument of its type is undefined, and so is a
  \<^verbatim>\<open>%\<close> that ends the format; arguments left over are ignored.
\<close>

definition justify :: "int \<Rightarrow> string \<Rightarrow> string" where
  "justify w s =
     (if w \<ge> 0 then replicate (nat w - length s) (CHR '' '') @ s
      else s @ replicate (nat (- w) - length s) (CHR '' ''))"

definition conversion ::
  "'f platform \<Rightarrow> string \<Rightarrow> 'f val list \<Rightarrow> (string \<times> nat \<times> 'f val list) option" where
  "conversion P fmt args =
     (case fmt of
        [] \<Rightarrow> None
      | c # fmt' \<Rightarrow>
          if c = CHR ''%'' then Some (''%'', 1, args)
          else if c = CHR ''s'' then
            (case args of
               V_str (Some s) # args' \<Rightarrow> Some (s, 1, args')
             | _ \<Rightarrow> None)
          else if c = CHR ''*'' \<and> take 1 fmt' = ''s'' then
            (case args of
               V_int w # V_str (Some s) # args' \<Rightarrow> Some (justify w s, 2, args')
             | _ \<Rightarrow> None)
          else printf_conversion P fmt args)"

fun printf :: "'f platform \<Rightarrow> string \<Rightarrow> 'f val list \<Rightarrow> string option" where
  "printf P [] args = Some []"
| "printf P (c # fmt) args =
     (if c \<noteq> CHR ''%'' then map_option ((#) c) (printf P fmt args)
      else
        (case conversion P fmt args of
           None \<Rightarrow> None
         | Some (out, n, args') \<Rightarrow> map_option ((@) out) (printf P (drop n fmt) args')))"

text \<open>
  Calls of \<^verbatim>\<open>printf\<close> one after the other, each with its format and its arguments: what they
  write to \<^verbatim>\<open>stdout\<close>, undefined as soon as one of them is.
\<close>

fun printf_calls :: "'f platform \<Rightarrow> (string \<times> 'f val list) list \<Rightarrow> string option" where
  "printf_calls P [] = Some []"
| "printf_calls P ((fmt, args) # calls) =
     (case printf P fmt args of
        None \<Rightarrow> None
      | Some out \<Rightarrow> map_option ((@) out) (printf_calls P calls))"

text \<open>The three expansions that compute \<^verbatim>\<open>max_width\<close>, from 0.\<close>

definition max_width :: "'f decls \<Rightarrow> int" where
  "max_width D =
     foldl (\<lambda>m b. let len = int (length (b_flag b)) in if len > m then len else m)
       (foldl (\<lambda>m d. let len = int (length (o_flag d)) + 1 + int (length (o_label d)) + 2
                       in if len > m then len else m)
          (foldl (\<lambda>m d. let len = int (length (r_label d)) + 2 in if len > m then len else m)
             0 (REQUIRED_ARGS D))
          (OPTIONAL_ARGS D))
       (BOOLEAN_ARGS D)"

text \<open>
  The call of \<^verbatim>\<open>printf\<close> that each declaration expands to in the sections \<^verbatim>\<open>ARGUMENTS\<close> and
  \<^verbatim>\<open>OPTIONS\<close>. The labels, flags, descriptions and formatters are string literals that the
  macros join with the pieces of the format, so they are read as format; \<^verbatim>\<open>strlen\<close> counts
  their characters as they are written.
\<close>

definition argument_call :: "int \<Rightarrow> required_arg \<Rightarrow> string \<times> 'f val list" where
  "argument_call mw d =
     (''    <'' @ r_label d @ ''>%*s    '' @ r_description d @ ''\<newline>'',
      [V_int (mw - int (length (r_label d)) - 2), V_str (Some [])])"

definition option_call :: "int \<Rightarrow> 'f optional_arg \<Rightarrow> string \<times> 'f val list" where
  "option_call mw d =
     (''    '' @ o_flag d @ '' <'' @ o_label d @ ''>%*s    '' @ o_description d
        @ '' (default: '' @ o_formatter d @ '')\<newline>'',
      [V_int (mw - int (length (o_label d)) - int (length (o_flag d)) - 3), V_str (Some []),
       o_default d])"

definition boolean_call :: "int \<Rightarrow> boolean_arg \<Rightarrow> string \<times> 'f val list" where
  "boolean_call mw b =
     (''    '' @ b_flag b @ ''%*s    '' @ b_description b @ ''\<newline>'',
      [V_int (mw - int (length (b_flag b))), V_str (Some [])])"

text \<open>
  \<^verbatim>\<open>print_help\<close>: its calls of \<^verbatim>\<open>printf\<close> in their order. A list of declarations that is empty
  stands for a macro that is not defined. The formats of the line after \<^verbatim>\<open>USAGE:\<close> are the
  expansions of the lists, joined into one literal.
\<close>

definition print_help :: "'f platform \<Rightarrow> 'f decls \<Rightarrow> string option \<Rightarrow> string option" where
  "print_help P D exec_alias =
     printf_calls P
       ([(''USAGE:\<newline>'', []), (''    %s '', [V_str exec_alias])]
        @ (if REQUIRED_ARGS D = [] then []
           else if REQUIRED_ARG_COUNT D > 0 \<and> REQUIRED_ARG_COUNT D \<le> 3
           then [(concat (map (\<lambda>d. ''<'' @ r_label d @ ''> '') (REQUIRED_ARGS D)), [])]
           else [(''<ARGUMENTS> '', [])])
        @ (if OPTIONAL_ARG_COUNT D + BOOLEAN_ARG_COUNT D \<le> 3
           then (if OPTIONAL_ARGS D = [] then []
                 else [(concat (map (\<lambda>d. ''['' @ o_flag d @ '' <'' @ o_label d @ ''>'' @ ''] '')
                                  (OPTIONAL_ARGS D)), [])])
                @ (if BOOLEAN_ARGS D = [] then []
                   else [(concat (map (\<lambda>b. ''['' @ b_flag b @ ''] '') (BOOLEAN_ARGS D)), [])])
           else [(''[OPTIONS]'', [])])
        @ [(''\<newline>\<newline>'', [])]
        @ (if REQUIRED_ARGS D = [] then []
           else [(''ARGUMENTS:\<newline>'', [])]
                @ map (argument_call (max_width D)) (REQUIRED_ARGS D)
                @ [(''\<newline>'', [])])
        @ (if OPTIONAL_ARGS D = [] \<and> BOOLEAN_ARGS D = [] then []
           else [(''OPTIONS:\<newline>'', [])]
                @ map (option_call (max_width D)) (OPTIONAL_ARGS D)
                @ map (boolean_call (max_width D)) (BOOLEAN_ARGS D)))"

chapter \<open>Notions for stating the claims\<close>

section \<open>The loop on the remaining tokens, and accessors\<close>

text \<open>
  With \<^verbatim>\<open>argc\<close> the length of \<^verbatim>\<open>argv\<close>, the loop at index \<open>i\<close> only reads the tokens from \<open>i\<close> on.
  \<open>walk_list\<close> is the loop on that suffix; \<open>walk_is_walk_list\<close> proves that the two agree.
\<close>

fun walk_list ::
  "('f::zero) platform \<Rightarrow> 'f decls \<Rightarrow> string list \<Rightarrow> 'f args_t \<Rightarrow> string list \<Rightarrow> 'f flow" where
  "walk_list P D [] a e = Return 1 a e"
| "walk_list P D (t # ts) a e =
     (case find (\<lambda>d. t = o_flag d) (OPTIONAL_ARGS D) of
        Some d \<Rightarrow>
          (case ts of
             [] \<Rightarrow> Return 0 a (e @ [''Error: option '' @ squote (o_flag d) @ '' requires a value.''])
           | v # ts' \<Rightarrow>
               (let (x, ok, m) = parser_of P (o_type d) (Some v);
                    a' = a(o_name d \<mapsto> x)
                in if \<not> ok then Return 0 a' (e @ m) else walk_list P D ts' a' (e @ m)))
      | None \<Rightarrow>
          (case find (\<lambda>b. t = b_flag b) (BOOLEAN_ARGS D) of
             Some b \<Rightarrow> walk_list P D ts (a(b_name b \<mapsto> V_bool True)) e
           | None \<Rightarrow> walk_list P D ts a (e @ [''Warning: Ignoring invalid argument '' @ squote t])))"

text \<open>
  The accessors of a converter's result and of how \<^verbatim>\<open>parse_args\<close> ended.
\<close>

definition conv_value :: "'f conv \<Rightarrow> 'f val" where
  "conv_value c = fst c"

definition conv_ok :: "'f conv \<Rightarrow> bool" where
  "conv_ok c = fst (snd c)"

fun ret_code :: "'f flow \<Rightarrow> int option" where
  "ret_code (Return r a e) = Some r"
| "ret_code _ = None"

fun container :: "'f flow \<Rightarrow> 'f args_t option" where
  "container (Return r a e) = Some a"
| "container _ = None"

fun field :: "'f flow \<Rightarrow> string \<Rightarrow> 'f val option" where
  "field (Return r a e) n = a n"
| "field _ n = None"

fun stderr_lines :: "'f flow \<Rightarrow> string list" where
  "stderr_lines (Return r a e) = e"
| "stderr_lines (Continue i a e) = e"
| "stderr_lines Undefined = []"

section \<open>Well-formed declarations\<close>

text \<open>
  A declaration set that compiles and respects the header's contract: the field names of
  the struct are distinct, and so are the flag tokens of the optional and boolean
  declarations.
\<close>

definition field_names :: "'f decls \<Rightarrow> string list" where
  "field_names D =
     map r_name (REQUIRED_ARGS D) @ map o_name (OPTIONAL_ARGS D) @ map b_name (BOOLEAN_ARGS D)"

definition flag_tokens :: "'f decls \<Rightarrow> string list" where
  "flag_tokens D = map o_flag (OPTIONAL_ARGS D) @ map b_flag (BOOLEAN_ARGS D)"

definition wf_decls :: "'f decls \<Rightarrow> bool" where
  "wf_decls D \<longleftrightarrow> distinct (field_names D) \<and> distinct (flag_tokens D)"

section \<open>Structured token sequences\<close>

text \<open>
  The tokens after the required ones, as the loop reads them: a flag of an optional
  declaration with the token after it, a flag of a boolean declaration, or a token that is
  no flag.
\<close>

datatype item = Opt string string | Flag string | is_Other: Other string

fun tokens_of :: "item \<Rightarrow> string list" where
  "tokens_of (Opt f v) = [f, v]"
| "tokens_of (Flag f) = [f]"
| "tokens_of (Other t) = [t]"

definition tokens_of_items :: "item list \<Rightarrow> string list" where
  "tokens_of_items items = concat (map tokens_of items)"

text \<open>
  An item is declared when its flag is one of the declarations (for a token that is no flag:
  when it is the flag of none). It converts when it is no optional flag, or its value
  converts under the converter of the declarations with its flag.
\<close>

fun item_declared :: "'f decls \<Rightarrow> item \<Rightarrow> bool" where
  "item_declared D (Opt f v) \<longleftrightarrow> f \<in> set (map o_flag (OPTIONAL_ARGS D))"
| "item_declared D (Flag f) \<longleftrightarrow> f \<in> set (map b_flag (BOOLEAN_ARGS D))"
| "item_declared D (Other t) \<longleftrightarrow> t \<notin> set (flag_tokens D)"

fun item_converts :: "('f::zero) platform \<Rightarrow> 'f decls \<Rightarrow> item \<Rightarrow> bool" where
  "item_converts P D (Opt f v) \<longleftrightarrow>
     list_all (\<lambda>d. f = o_flag d \<longrightarrow> conv_ok (parser_of P (o_type d) (Some v))) (OPTIONAL_ARGS D)"
| "item_converts P D _ \<longleftrightarrow> True"

text \<open>
  What the loop does with an item: the field it writes (\<open>item_target\<close>), the container
  after the item, and the line it adds to \<^verbatim>\<open>stderr\<close>.
\<close>

fun item_write :: "('f::zero) platform \<Rightarrow> 'f decls \<Rightarrow> item \<Rightarrow> 'f args_t \<Rightarrow> 'f args_t" where
  "item_write P D (Opt f v) a =
     (case find (\<lambda>d. f = o_flag d) (OPTIONAL_ARGS D) of
        Some d \<Rightarrow> a(o_name d \<mapsto> conv_value (parser_of P (o_type d) (Some v)))
      | None \<Rightarrow> a)"
| "item_write P D (Flag f) a =
     (case find (\<lambda>b. f = b_flag b) (BOOLEAN_ARGS D) of
        Some b \<Rightarrow> a(b_name b \<mapsto> V_bool True)
      | None \<Rightarrow> a)"
| "item_write P D (Other t) a = a"

fun item_warning :: "item \<Rightarrow> string list" where
  "item_warning (Other t) = [''Warning: Ignoring invalid argument '' @ squote t]"
| "item_warning _ = []"

fun item_target :: "'f decls \<Rightarrow> item \<Rightarrow> string option" where
  "item_target D (Opt f v) = map_option o_name (find (\<lambda>d. f = o_flag d) (OPTIONAL_ARGS D))"
| "item_target D (Flag f) = map_option b_name (find (\<lambda>b. f = b_flag b) (BOOLEAN_ARGS D))"
| "item_target D (Other t) = None"

text \<open>What a required declaration stores for its token.\<close>

definition req_write ::
  "('f::zero) platform \<Rightarrow> required_arg \<times> string \<Rightarrow> 'f args_t \<Rightarrow> 'f args_t" where
  "req_write P = (\<lambda>(d, t) a. a(r_name d \<mapsto> conv_value (parser_of P (r_type d) (Some t))))"

section \<open>An example declaration set\<close>

text \<open>
  The declarations of the usage example: a required \<^verbatim>\<open>int\<close>, an optional string with the flag
  \<^verbatim>\<open>--name\<close> and the default \<^verbatim>\<open>"anon"\<close>, and the boolean flag \<^verbatim>\<open>--verbose\<close>.
\<close>

definition example_decls :: "int decls" where
  "example_decls =
     \<lparr> REQUIRED_ARGS =
         [\<lparr> r_type = T_int, r_name = ''count'', r_label = ''count'',
            r_description = ''Number of repetitions'' \<rparr>],
       OPTIONAL_ARGS =
         [\<lparr> o_type = T_string, o_name = ''name'', o_default = V_str (Some ''anon''),
            o_flag = ''--name'', o_label = ''NAME'', o_description = ''Name to greet'',
            o_formatter = ''%s'' \<rparr>],
       BOOLEAN_ARGS =
         [\<lparr> b_name = ''verbose'', b_flag = ''--verbose'',
            b_description = ''Print more'' \<rparr>] \<rparr>"

section \<open>Conditions on the tokens\<close>

text \<open>Every required token converts under the converter of its declaration.\<close>

definition required_convert :: "('f::zero) platform \<Rightarrow> 'f decls \<Rightarrow> string list \<Rightarrow> bool" where
  "required_convert P D reqs \<longleftrightarrow>
     list_all (\<lambda>(d, t). conv_ok (parser_of P (r_type d) (Some t))) (zip (REQUIRED_ARGS D) reqs)"

text \<open>No optional flag starts two items with different values.\<close>

fun same_flag_same_value :: "item \<Rightarrow> item \<Rightarrow> bool" where
  "same_flag_same_value (Opt f v) (Opt g w) \<longleftrightarrow> f \<noteq> g \<or> v = w"
| "same_flag_same_value _ _ \<longleftrightarrow> True"

definition one_value_per_flag :: "item list \<Rightarrow> bool" where
  "one_value_per_flag items \<longleftrightarrow>
     list_all (\<lambda>x. list_all (same_flag_same_value x) items) items"

section \<open>Decimal tokens\<close>

text \<open>The decimal token of a number: its digits without a leading zero, after \<^verbatim>\<open>-\<close> when negative.\<close>

definition digit_char :: "nat \<Rightarrow> char" where
  "digit_char d = char_of (48 + d)"

fun dec_nat :: "nat \<Rightarrow> string" where
  "dec_nat n = (if n < 10 then [digit_char n] else dec_nat (n div 10) @ [digit_char (n mod 10)])"


lemmas [simp del] = dec_nat.simps

section \<open>The parts of a line of the help text\<close>

text \<open>
  The left part of a line is what stands before the padding; \<open>widths\<close> lists, for every
  declaration, the length that \<^verbatim>\<open>print_help\<close> compares with \<^verbatim>\<open>max_width\<close>. A line is aligned
  at a width when it is four spaces, the left part filled with spaces to that width, four
  spaces and the rest of the line.
\<close>

definition required_left :: "required_arg \<Rightarrow> string" where
  "required_left d = ''<'' @ r_label d @ ''>''"

definition optional_left :: "'f optional_arg \<Rightarrow> string" where
  "optional_left d = o_flag d @ '' <'' @ o_label d @ ''>''"

definition boolean_left :: "boolean_arg \<Rightarrow> string" where
  "boolean_left b = b_flag b"

definition widths :: "'f decls \<Rightarrow> int list" where
  "widths D =
     map (\<lambda>d. int (length (r_label d)) + 2) (REQUIRED_ARGS D)
     @ map (\<lambda>d. int (length (o_flag d)) + 1 + int (length (o_label d)) + 2) (OPTIONAL_ARGS D)
     @ map (\<lambda>b. int (length (b_flag b))) (BOOLEAN_ARGS D)"

definition aligned_line :: "int \<Rightarrow> string \<Rightarrow> string \<Rightarrow> string \<Rightarrow> bool" where
  "aligned_line mw left rest line \<longleftrightarrow>
     int (length left) \<le> mw \<and>
     line = ''    '' @ left @ replicate (nat (mw - int (length left))) (CHR '' '') @ ''    '' @ rest"

text \<open>A text without \<^verbatim>\<open>%\<close>, which \<^verbatim>\<open>printf\<close> writes as it stands.\<close>

definition plain_text :: "string \<Rightarrow> bool" where
  "plain_text s \<longleftrightarrow> CHR ''%'' \<notin> set s"

text \<open>Lines, each ended by a newline, as one text.\<close>

definition unlines :: "string list \<Rightarrow> string" where
  "unlines ls = concat (map (\<lambda>l. l @ ''\<newline>'') ls)"

text \<open>
  Two required declarations whose labels have the same number of characters; the first
  label ends in \<^verbatim>\<open>%%\<close>, which \<^verbatim>\<open>printf\<close> writes as one \<^verbatim>\<open>%\<close>.
\<close>

definition percent_decls :: "int decls" where
  "percent_decls =
     \<lparr> REQUIRED_ARGS =
         [\<lparr> r_type = T_int, r_name = ''rate'', r_label = ''rate%%'',
            r_description = ''Discount'' \<rparr>,
          \<lparr> r_type = T_string, r_name = ''infile'', r_label = ''infile'',
            r_description = ''Input file'' \<rparr>],
       OPTIONAL_ARGS = [],
       BOOLEAN_ARGS = [] \<rparr>"

chapter \<open>Lemmas and claims\<close>

section \<open>Properties of the converters\<close>

lemmas parser_defs =
  easyargs_parse_str_def easyargs_parse_char_def
  easyargs_parse_int_def easyargs_parse_long_def easyargs_parse_llong_def
  easyargs_parse_uint_def easyargs_parse_ulong_def easyargs_parse_ullong_def
  easyargs_parse_size_t_def easyargs_parse_float_def easyargs_parse_double_def
  signed_integer_parser_def unsigned_integer_parser_def

lemma unsigned_integer_parser_shape:
  "(\<exists>v. unsigned_integer_parser P mx tn text = (v, True, [])) \<or>
   (\<exists>m. unsigned_integer_parser P mx tn text = (V_int 0, False, [m]))"
  by (simp add: unsigned_integer_parser_def Let_def split: option.split prod.split)

lemma signed_integer_parser_shape:
  "(\<exists>v. signed_integer_parser P mn mx tn text = (v, True, [])) \<or>
   (\<exists>m. signed_integer_parser P mn mx tn text = (V_int 0, False, [m]))"
  by (simp add: signed_integer_parser_def Let_def split: option.split prod.split)

lemma easyargs_parse_float_shape:
  "(\<exists>v. easyargs_parse_float P text = (v, True, [])) \<or>
   (\<exists>m. easyargs_parse_float P text = (V_float 0, False, [m]))"
  by (simp add: easyargs_parse_float_def Let_def split: option.split prod.split)

lemma easyargs_parse_double_shape:
  "(\<exists>v. easyargs_parse_double P text = (v, True, [])) \<or>
   (\<exists>m. easyargs_parse_double P text = (V_float 0, False, [m]))"
  by (simp add: easyargs_parse_double_def Let_def split: option.split prod.split)

lemma easyargs_parse_str_shape:
  "(\<exists>v. easyargs_parse_str text = (v, True, [])) \<or>
   (\<exists>m. easyargs_parse_str text = (V_str None, False, [m]))"
  by (simp add: easyargs_parse_str_def split: option.split)

lemma easyargs_parse_char_shape:
  "(\<exists>v. easyargs_parse_char text = (v, True, [])) \<or>
   (\<exists>m. easyargs_parse_char text = (V_char (CHR 0x00), False, [m]))"
  by (simp add: easyargs_parse_char_def split: option.split)

text \<open>
  Every path through a converter is a \<^verbatim>\<open>return\<close>: with the flag set and nothing written, or
  with the flag clear, the zero of the type and one line on \<^verbatim>\<open>stderr\<close>.
\<close>

lemma parser_of_shape:
  "(\<exists>v. parser_of P ty text = (v, True, [])) \<or>
   (\<exists>m. parser_of P ty text = (zero_of ty, False, [m]))"
  by (cases ty)
     (simp_all add: unsigned_integer_parser_shape signed_integer_parser_shape
        easyargs_parse_float_shape easyargs_parse_double_shape easyargs_parse_str_shape
        easyargs_parse_char_shape easyargs_parse_int_def easyargs_parse_long_def
        easyargs_parse_llong_def easyargs_parse_uint_def easyargs_parse_ulong_def
        easyargs_parse_ullong_def easyargs_parse_size_t_def)

text \<open>
  With every read explicit, no converter makes an undefined one: each gives the result of
  the converter above.
\<close>

lemma skip_leading_loop_Some: "skip_leading_loop (Some s) = Some (Some (skip_spaces s))"
proof (induction s)
  case Nil
  show ?case by (subst skip_leading_loop.simps) (simp add: read_at_def)
next
  case (Cons c s)
  then show ?case by (subst skip_leading_loop.simps) (simp add: read_at_def)
qed

lemma read_at_0: "read_at (Some s) 0 = Some (if s = [] then Terminator else Character (hd s))"
  by (cases s) (simp_all add: read_at_def)

lemma easyargs_parse_str_mem_eq: "easyargs_parse_str_mem t = Some (easyargs_parse_str t)"
  by (cases t) (simp_all add: easyargs_parse_str_mem_def easyargs_parse_str_def read_at_0)

lemma easyargs_parse_char_mem_eq: "easyargs_parse_char_mem t = Some (easyargs_parse_char t)"
proof (cases t)
  case None
  then show ?thesis by (simp add: easyargs_parse_char_mem_def easyargs_parse_char_def)
next
  case (Some s)
  show ?thesis
  proof (cases s)
    case Nil
    with Some show ?thesis
      by (simp add: easyargs_parse_char_mem_def easyargs_parse_char_def read_at_def)
  next
    case (Cons c cs)
    with Some show ?thesis
      by (cases cs) (simp_all add: easyargs_parse_char_mem_def easyargs_parse_char_def read_at_def)
  qed
qed

lemma unsigned_integer_parser_mem_eq:
  "unsigned_integer_parser_mem P mx tn t = Some (unsigned_integer_parser P mx tn t)"
proof (cases t)
  case None
  then show ?thesis by (simp add: unsigned_integer_parser_mem_def unsigned_integer_parser_def)
next
  case (Some s)
  then show ?thesis
    by (simp add: unsigned_integer_parser_mem_def unsigned_integer_parser_def
        easyargs_skip_leading_mem_def skip_leading_loop_Some read_at_0 strtoull_mem_def Let_def
        split: prod.split)
qed

lemma signed_integer_parser_mem_eq:
  "signed_integer_parser_mem P mn mx tn t = Some (signed_integer_parser P mn mx tn t)"
proof (cases t)
  case None
  then show ?thesis by (simp add: signed_integer_parser_mem_def signed_integer_parser_def)
next
  case (Some s)
  then show ?thesis
    by (simp add: signed_integer_parser_mem_def signed_integer_parser_def
        easyargs_skip_leading_mem_def skip_leading_loop_Some read_at_0 strtoll_mem_def Let_def
        split: prod.split)
qed

lemma easyargs_parse_float_mem_eq:
  "easyargs_parse_float_mem P t = Some (easyargs_parse_float P t)"
proof (cases t)
  case None
  then show ?thesis by (simp add: easyargs_parse_float_mem_def easyargs_parse_float_def)
next
  case (Some s)
  then show ?thesis
    by (simp add: easyargs_parse_float_mem_def easyargs_parse_float_def
        easyargs_skip_leading_mem_def skip_leading_loop_Some read_at_0 strtof_mem_def Let_def
        split: prod.split)
qed

lemma easyargs_parse_double_mem_eq:
  "easyargs_parse_double_mem P t = Some (easyargs_parse_double P t)"
proof (cases t)
  case None
  then show ?thesis by (simp add: easyargs_parse_double_mem_def easyargs_parse_double_def)
next
  case (Some s)
  then show ?thesis
    by (simp add: easyargs_parse_double_mem_def easyargs_parse_double_def
        easyargs_skip_leading_mem_def skip_leading_loop_Some read_at_0 strtod_mem_def Let_def
        split: prod.split)
qed

lemmas parser_mem_defs =
  easyargs_parse_int_mem_def easyargs_parse_long_mem_def easyargs_parse_llong_mem_def
  easyargs_parse_uint_mem_def easyargs_parse_ulong_mem_def easyargs_parse_ullong_mem_def
  easyargs_parse_size_t_mem_def

lemma parser_of_mem_eq: "parser_of_mem P ty t = Some (parser_of P ty t)"
  by (cases ty)
     (simp_all add: easyargs_parse_str_mem_eq easyargs_parse_char_mem_eq
        unsigned_integer_parser_mem_eq signed_integer_parser_mem_eq
        easyargs_parse_float_mem_eq easyargs_parse_double_mem_eq parser_mem_defs
        easyargs_parse_int_def easyargs_parse_long_def easyargs_parse_llong_def
        easyargs_parse_uint_def easyargs_parse_ulong_def easyargs_parse_ullong_def
        easyargs_parse_size_t_def)

text \<open>
  Claim C8. With every read through the text pointer explicit: each of the eleven
  converters, given \<^verbatim>\<open>NULL\<close>, returns with the flag at 0, the zero of its type (\<^verbatim>\<open>NULL\<close>, 0 or
  0.0) and one line on \<^verbatim>\<open>stderr\<close>, having made no read (a read through \<^verbatim>\<open>NULL\<close> would leave
  no result), and so does \<^verbatim>\<open>easyargs_skip_leading\<close> return \<^verbatim>\<open>NULL\<close>. On every input, null or
  not, a converter makes no undefined read and returns: with the flag set and nothing
  written, or with the flag clear, the zero of its type and one line.
\<close>

theorem converters_null_safe:
  fixes P :: "('f::zero) platform"
  shows
  "easyargs_parse_str_mem None =
        Some (V_str None :: 'f val, False, [''Error: null string value.''])
   \<and> easyargs_parse_char_mem None =
        Some (V_char (CHR 0x00) :: 'f val, False, [''Error: null input for character argument.''])
   \<and> easyargs_parse_uint_mem P None =
        Some (V_int 0, False, [''Error: null input for unsigned int.''])
   \<and> easyargs_parse_ulong_mem P None =
        Some (V_int 0, False, [''Error: null input for unsigned long.''])
   \<and> easyargs_parse_ullong_mem P None =
        Some (V_int 0, False, [''Error: null input for unsigned long long.''])
   \<and> easyargs_parse_size_t_mem P None =
        Some (V_int 0, False, [''Error: null input for size_t.''])
   \<and> easyargs_parse_int_mem P None = Some (V_int 0, False, [''Error: null input for int.''])
   \<and> easyargs_parse_long_mem P None = Some (V_int 0, False, [''Error: null input for long.''])
   \<and> easyargs_parse_llong_mem P None =
        Some (V_int 0, False, [''Error: null input for long long.''])
   \<and> easyargs_parse_float_mem P None =
        Some (V_float 0, False, [''Error: null input for float.''])
   \<and> easyargs_parse_double_mem P None =
        Some (V_float 0, False, [''Error: null input for double.''])
   \<and> easyargs_skip_leading_mem None = Some None
   \<and> (\<forall>ty t. (\<exists>v. parser_of_mem P ty t = Some (v, True, [])) \<or>
               (\<exists>m. parser_of_mem P ty t = Some (zero_of ty, False, [m])))"
proof -
  have shape: "(\<exists>v. parser_of_mem P ty t = Some (v, True, [])) \<or>
      (\<exists>m. parser_of_mem P ty t = Some (zero_of ty, False, [m]))" for ty t
    using parser_of_shape[of P ty t] by (simp add: parser_of_mem_eq)
  have null: "parser_of_mem P ty None = Some (parser_of P ty None)" for ty
    by (rule parser_of_mem_eq)
  note n = null[of T_string] null[of T_char] null[of T_uint] null[of T_ulong] null[of T_ullong]
    null[of T_size] null[of T_int] null[of T_long] null[of T_llong] null[of T_float]
    null[of T_double]
  have "easyargs_skip_leading_mem None = Some None"
    by (simp add: easyargs_skip_leading_mem_def)
  with n[unfolded parser_of_mem.simps parser_of.simps] shape show ?thesis
    by (simp add: parser_defs)
qed

section \<open>The loop as a recursion on the remaining tokens\<close>

lemma walk_step:
  "int i < argc \<Longrightarrow> loop_body P D argc argv i a e = Continue j a' e' \<Longrightarrow>
   walk P D argc argv i a e = walk P D argc argv j a' e'"
  by (subst walk.simps) simp

lemma walk_stop:
  "int i < argc \<Longrightarrow> loop_body P D argc argv i a e = Return r a' e' \<Longrightarrow>
   walk P D argc argv i a e = Return r a' e'"
  by (subst walk.simps) simp

lemma walk_end: "\<not> int i < argc \<Longrightarrow> walk P D argc argv i a e = Return 1 a e"
  by (subst walk.simps) simp

lemma walk_is_walk_list:
  "argc = int (length argv) \<Longrightarrow> i \<le> length argv \<Longrightarrow>
   walk P D argc argv i a e = walk_list P D (drop i argv) a e"
proof (induction P D argc argv i a e rule: walk.induct)
  case (1 P D argc argv i a e)
  note argc = \<open>argc = int (length argv)\<close>
  show ?case
  proof (cases "i < length argv")
    case False
    with 1(2,3) show ?thesis by (simp add: walk_end)
  next
    case True
    then have lt: "int i < argc" using argc by simp
    have d: "drop i argv = argv ! i # drop (Suc i) argv"
      using True by (simp add: Cons_nth_drop_Suc)
    show ?thesis
    proof (cases "find (\<lambda>d. argv ! i = o_flag d) (OPTIONAL_ARGS D)")
      case None
      show ?thesis
      proof (cases "find (\<lambda>b. argv ! i = b_flag b) (BOOLEAN_ARGS D)")
        case N2: None
        have lb: "loop_body P D argc argv i a e = Continue (i + 1) a
               (e @ [''Warning: Ignoring invalid argument '' @ squote (argv ! i)])"
          using True None N2 by (simp add: loop_body_def)
        have "walk P D argc argv i a e = walk P D argc argv (i + 1) a
               (e @ [''Warning: Ignoring invalid argument '' @ squote (argv ! i)])"
          by (rule walk_step[OF lt lb])
        also have "\<dots> = walk_list P D (drop (i + 1) argv) a
               (e @ [''Warning: Ignoring invalid argument '' @ squote (argv ! i)])"
          by (rule 1(1)[OF lt lb argc]) (use True in simp)
        also have "\<dots> = walk_list P D (drop i argv) a e"
          unfolding d using None N2 by simp
        finally show ?thesis .
      next
        case (Some b)
        have lb: "loop_body P D argc argv i a e = Continue (i + 1) (a(b_name b \<mapsto> V_bool True)) e"
          using True None Some by (simp add: loop_body_def)
        have "walk P D argc argv i a e = walk P D argc argv (i + 1) (a(b_name b \<mapsto> V_bool True)) e"
          by (rule walk_step[OF lt lb])
        also have "\<dots> = walk_list P D (drop (i + 1) argv) (a(b_name b \<mapsto> V_bool True)) e"
          by (rule 1(1)[OF lt lb argc]) (use True in simp)
        also have "\<dots> = walk_list P D (drop i argv) a e"
          unfolding d using None Some by simp
        finally show ?thesis .
      qed
    next
      case (Some d')
      show ?thesis
      proof (cases "Suc i < length argv")
        case False
        have lb: "loop_body P D argc argv i a e = Return 0 a
               (e @ [''Error: option '' @ squote (o_flag d') @ '' requires a value.''])"
          using True False Some argc by (simp add: loop_body_def)
        show ?thesis
          using True False Some by (simp add: walk_stop[OF lt lb] d)
      next
        case S: True
        have d2: "drop (Suc i) argv = argv ! Suc i # drop (Suc (Suc i)) argv"
          using S by (simp add: Cons_nth_drop_Suc)
        obtain x ok m where p: "parser_of P (o_type d') (Some (argv ! Suc i)) = (x, ok, m)"
          by (cases "parser_of P (o_type d') (Some (argv ! Suc i))") auto
        show ?thesis
        proof (cases ok)
          case False
          have lb: "loop_body P D argc argv i a e = Return 0 (a(o_name d' \<mapsto> x)) (e @ m)"
            using True S Some argc p False by (simp add: loop_body_def)
          show ?thesis
            using Some p False by (simp add: walk_stop[OF lt lb] d d2)
        next
          case T: True
          have lb: "loop_body P D argc argv i a e = Continue (i + 2) (a(o_name d' \<mapsto> x)) (e @ m)"
            using True S Some argc p T by (simp add: loop_body_def)
          have "walk P D argc argv i a e = walk P D argc argv (i + 2) (a(o_name d' \<mapsto> x)) (e @ m)"
            by (rule walk_step[OF lt lb])
          also have "\<dots> = walk_list P D (drop (i + 2) argv) (a(o_name d' \<mapsto> x)) (e @ m)"
            by (rule 1(1)[OF lt lb argc]) (use S in simp)
          also have "\<dots> = walk_list P D (drop i argv) a e"
            unfolding d d2 using Some p T by simp
          finally show ?thesis .
        qed
      qed
    qed
  qed
qed

section \<open>Well-formed declarations and structured token sequences\<close>

subsection \<open>Looking up a flag\<close>

lemma find_optional:
  assumes "distinct (map o_flag ds)" "d \<in> set ds"
  shows "find (\<lambda>x. o_flag d = o_flag x) ds = Some d"
  using assms by (induction ds) (auto simp: image_iff)

lemma find_boolean:
  assumes "distinct (map b_flag bs)" "b \<in> set bs"
  shows "find (\<lambda>x. b_flag b = b_flag x) bs = Some b"
  using assms by (induction bs) (auto simp: image_iff)

lemma find_Some_flag: "find (\<lambda>x. f = g x) xs = Some d \<Longrightarrow> d \<in> set xs \<and> g d = f"
  by (induction xs) (auto split: if_splits)

lemma find_None_flag: "find (\<lambda>x. f = g x) xs = None \<longleftrightarrow> f \<notin> g ` set xs"
  by (induction xs) auto

lemma wf_decls_flags:
  assumes "wf_decls D"
  shows "distinct (map o_flag (OPTIONAL_ARGS D))" "distinct (map b_flag (BOOLEAN_ARGS D))"
    "o_flag ` set (OPTIONAL_ARGS D) \<inter> b_flag ` set (BOOLEAN_ARGS D) = {}"
  using assms by (auto simp: wf_decls_def flag_tokens_def)

lemma field_names_distinct:
  assumes "distinct (field_names D)"
  shows "distinct (map r_name (REQUIRED_ARGS D))" "distinct (map o_name (OPTIONAL_ARGS D))"
    "distinct (map b_name (BOOLEAN_ARGS D))"
    "r_name ` set (REQUIRED_ARGS D) \<inter> o_name ` set (OPTIONAL_ARGS D) = {}"
    "r_name ` set (REQUIRED_ARGS D) \<inter> b_name ` set (BOOLEAN_ARGS D) = {}"
    "o_name ` set (OPTIONAL_ARGS D) \<inter> b_name ` set (BOOLEAN_ARGS D) = {}"
  using assms by (auto simp: field_names_def)

lemma wf_decls_names:
  assumes "wf_decls D"
  shows "distinct (map r_name (REQUIRED_ARGS D))" "distinct (map o_name (OPTIONAL_ARGS D))"
    "distinct (map b_name (BOOLEAN_ARGS D))"
    "r_name ` set (REQUIRED_ARGS D) \<inter> o_name ` set (OPTIONAL_ARGS D) = {}"
    "r_name ` set (REQUIRED_ARGS D) \<inter> b_name ` set (BOOLEAN_ARGS D) = {}"
    "o_name ` set (OPTIONAL_ARGS D) \<inter> b_name ` set (BOOLEAN_ARGS D) = {}"
  using assms field_names_distinct[of D] by (simp_all add: wf_decls_def)

lemma parser_of_ok_silent:
  "parser_of P ty t = (x, True, m) \<Longrightarrow> m = []"
  using parser_of_shape[of P ty t] by auto

subsection \<open>The loop on a structured sequence\<close>

lemma walk_list_Opt:
  assumes "find (\<lambda>d. f = o_flag d) (OPTIONAL_ARGS D) = Some d"
  shows "walk_list P D (f # v # ts) a e =
     (if conv_ok (parser_of P (o_type d) (Some v))
      then walk_list P D ts (a(o_name d \<mapsto> conv_value (parser_of P (o_type d) (Some v)))) e
      else Return 0 (a(o_name d \<mapsto> conv_value (parser_of P (o_type d) (Some v))))
             (e @ snd (snd (parser_of P (o_type d) (Some v)))))"
proof -
  obtain x ok m where p: "parser_of P (o_type d) (Some v) = (x, ok, m)"
    by (cases "parser_of P (o_type d) (Some v)") auto
  show ?thesis
    using assms p parser_of_ok_silent[of P "o_type d" "Some v" x m]
    by (auto simp: conv_ok_def conv_value_def)
qed

lemma walk_list_Flag:
  assumes "find (\<lambda>d. f = o_flag d) (OPTIONAL_ARGS D) = None"
    "find (\<lambda>b. f = b_flag b) (BOOLEAN_ARGS D) = Some b"
  shows "walk_list P D (f # ts) a e = walk_list P D ts (a(b_name b \<mapsto> V_bool True)) e"
  using assms by simp

lemma walk_list_Other:
  assumes "find (\<lambda>d. t = o_flag d) (OPTIONAL_ARGS D) = None"
    "find (\<lambda>b. t = b_flag b) (BOOLEAN_ARGS D) = None"
  shows "walk_list P D (t # ts) a e =
     walk_list P D ts a (e @ [''Warning: Ignoring invalid argument '' @ squote t])"
  using assms by simp

lemma item_declared_Opt:
  assumes "item_declared D (Opt f v)"
  obtains d where "find (\<lambda>d. f = o_flag d) (OPTIONAL_ARGS D) = Some d"
    "d \<in> set (OPTIONAL_ARGS D)" "o_flag d = f"
proof -
  from assms have "find (\<lambda>d. f = o_flag d) (OPTIONAL_ARGS D) \<noteq> None"
    by (simp add: find_None_flag)
  then obtain d where d: "find (\<lambda>d. f = o_flag d) (OPTIONAL_ARGS D) = Some d" by auto
  with find_Some_flag[OF d] that show thesis by blast
qed

lemma item_declared_Flag:
  assumes "wf_decls D" "item_declared D (Flag f)"
  obtains b where "find (\<lambda>d. f = o_flag d) (OPTIONAL_ARGS D) = None"
    "find (\<lambda>b. f = b_flag b) (BOOLEAN_ARGS D) = Some b" "b \<in> set (BOOLEAN_ARGS D)" "b_flag b = f"
proof -
  from assms have n: "find (\<lambda>d. f = o_flag d) (OPTIONAL_ARGS D) = None"
    using wf_decls_flags(3)[OF assms(1)] by (auto simp: find_None_flag)
  from assms have "find (\<lambda>b. f = b_flag b) (BOOLEAN_ARGS D) \<noteq> None"
    by (simp add: find_None_flag)
  then obtain b where b: "find (\<lambda>b. f = b_flag b) (BOOLEAN_ARGS D) = Some b" by auto
  with find_Some_flag[OF b] n that show thesis by blast
qed

lemma item_declared_Other:
  assumes "item_declared D (Other t)"
  shows "find (\<lambda>d. t = o_flag d) (OPTIONAL_ARGS D) = None"
    "find (\<lambda>b. t = b_flag b) (BOOLEAN_ARGS D) = None"
  using assms by (auto simp: find_None_flag flag_tokens_def)

lemma item_converts_Opt:
  assumes "wf_decls D" "find (\<lambda>d. f = o_flag d) (OPTIONAL_ARGS D) = Some d"
  shows "item_converts P D (Opt f v) \<longleftrightarrow> conv_ok (parser_of P (o_type d) (Some v))"
proof -
  from find_Some_flag[OF assms(2)] have d: "d \<in> set (OPTIONAL_ARGS D)" "o_flag d = f" by auto
  have uniq: "d' = d" if "d' \<in> set (OPTIONAL_ARGS D)" "f = o_flag d'" for d'
    using that d wf_decls_flags(1)[OF assms(1)] by (metis distinct_map inj_onD)
  have "item_converts P D (Opt f v) \<longleftrightarrow>
      (\<forall>d'\<in>set (OPTIONAL_ARGS D). f = o_flag d' \<longrightarrow> conv_ok (parser_of P (o_type d') (Some v)))"
    by (simp add: list_all_iff)
  also have "\<dots> \<longleftrightarrow> conv_ok (parser_of P (o_type d) (Some v))"
  proof
    assume "\<forall>d'\<in>set (OPTIONAL_ARGS D). f = o_flag d' \<longrightarrow> conv_ok (parser_of P (o_type d') (Some v))"
    with d show "conv_ok (parser_of P (o_type d) (Some v))" by blast
  next
    assume c: "conv_ok (parser_of P (o_type d) (Some v))"
    show "\<forall>d'\<in>set (OPTIONAL_ARGS D). f = o_flag d' \<longrightarrow> conv_ok (parser_of P (o_type d') (Some v))"
    proof (intro ballI impI)
      fix d' assume "d' \<in> set (OPTIONAL_ARGS D)" "f = o_flag d'"
      then have "d' = d" by (rule uniq)
      with c show "conv_ok (parser_of P (o_type d') (Some v))" by simp
    qed
  qed
  finally show ?thesis .
qed

lemma walk_list_items:
  assumes "wf_decls D" "list_all (item_declared D) items"
  shows "list_all (item_converts P D) items \<Longrightarrow>
           walk_list P D (tokens_of_items items @ ts) a e =
           walk_list P D ts (fold (item_write P D) items a) (e @ concat (map item_warning items))"
  using assms(2)
proof (induction items arbitrary: a e)
  case Nil
  then show ?case by (simp add: tokens_of_items_def)
next
  case (Cons it items)
  then have IH: "\<And>a e. walk_list P D (tokens_of_items items @ ts) a e =
           walk_list P D ts (fold (item_write P D) items a) (e @ concat (map item_warning items))"
    by simp
  show ?case
  proof (cases it)
    case (Opt f v)
    with Cons.prems have "item_declared D (Opt f v)" by simp
    then obtain d where d: "find (\<lambda>d. f = o_flag d) (OPTIONAL_ARGS D) = Some d"
      by (rule item_declared_Opt)
    from Cons.prems Opt have "conv_ok (parser_of P (o_type d) (Some v))"
      using item_converts_Opt[OF assms(1) d] by simp
    then show ?thesis
      using Opt d IH by (simp add: tokens_of_items_def walk_list_Opt[OF d] del: walk_list.simps)
  next
    case (Flag f)
    with Cons.prems have "item_declared D (Flag f)" by simp
    then obtain b where b: "find (\<lambda>d. f = o_flag d) (OPTIONAL_ARGS D) = None"
      "find (\<lambda>b. f = b_flag b) (BOOLEAN_ARGS D) = Some b"
      by (rule item_declared_Flag[OF assms(1)])
    then show ?thesis
      using Flag IH by (simp add: tokens_of_items_def walk_list_Flag[OF b] del: walk_list.simps)
  next
    case (Other t)
    with Cons.prems have "item_declared D (Other t)" by simp
    then have b: "find (\<lambda>d. t = o_flag d) (OPTIONAL_ARGS D) = None"
      "find (\<lambda>b. t = b_flag b) (BOOLEAN_ARGS D) = None"
      by (rule item_declared_Other)+
    then show ?thesis
      using Other IH by (simp add: tokens_of_items_def walk_list_Other[OF b] del: walk_list.simps)
  qed
qed

lemma walk_list_items_fail:
  assumes "wf_decls D" "list_all (item_declared D) items"
  shows "\<not> list_all (item_converts P D) items \<Longrightarrow>
           \<exists>a' e'. walk_list P D (tokens_of_items items @ ts) a e = Return 0 a' e'"
  using assms(2)
proof (induction items arbitrary: a e)
  case Nil
  then show ?case by simp
next
  case (Cons it items)
  show ?case
  proof (cases "item_converts P D it")
    case True
    with Cons.prems have r: "\<not> list_all (item_converts P D) items" "list_all (item_declared D) items"
      "list_all (item_declared D) [it]" "list_all (item_converts P D) [it]"
      by simp_all
    have "walk_list P D (tokens_of_items (it # items) @ ts) a e =
          walk_list P D (tokens_of_items [it] @ (tokens_of_items items @ ts)) a e"
      by (simp add: tokens_of_items_def)
    also have "\<dots> = walk_list P D (tokens_of_items items @ ts) (fold (item_write P D) [it] a)
        (e @ concat (map item_warning [it]))"
      by (rule walk_list_items[OF assms(1) r(3) r(4)])
    finally show ?thesis using Cons.IH[OF r(1) r(2)] by simp
  next
    case False
    then obtain f v where it: "it = Opt f v" by (cases it) auto
    with Cons.prems have "item_declared D (Opt f v)" by simp
    then obtain d where d: "find (\<lambda>d. f = o_flag d) (OPTIONAL_ARGS D) = Some d"
      by (rule item_declared_Opt)
    from False it have "\<not> conv_ok (parser_of P (o_type d) (Some v))"
      using item_converts_Opt[OF assms(1) d] by simp
    then show ?thesis
      using it by (simp add: tokens_of_items_def walk_list_Opt[OF d] del: walk_list.simps)
  qed
qed

text \<open>The loop on a structured sequence returns 1 exactly when every value converts.\<close>

lemma walk_list_items_code:
  assumes "wf_decls D" "list_all (item_declared D) items"
  shows "ret_code (walk_list P D (tokens_of_items items) a e) =
     Some (if list_all (item_converts P D) items then 1 else 0)"
proof (cases "list_all (item_converts P D) items")
  case True
  from walk_list_items[OF assms True, where ts="[]" and a=a and e=e] True show ?thesis by simp
next
  case False
  from walk_list_items_fail[OF assms False, where ts="[]" and a=a and e=e] False show ?thesis by auto
qed

subsection \<open>What a sequence of items leaves in a field\<close>

lemma item_write_other: "item_target D it \<noteq> Some n \<Longrightarrow> item_write P D it a n = a n"
  by (cases it) (auto split: option.splits)

lemma fold_item_write_frame:
  "\<forall>it\<in>set items. item_target D it \<noteq> Some n \<Longrightarrow> fold (item_write P D) items a n = a n"
  by (induction items arbitrary: a) (simp_all add: item_write_other)

lemma fold_item_write_last:
  assumes "\<forall>it\<in>set post. item_target D it \<noteq> Some n"
  shows "fold (item_write P D) (pre @ it # post) a n = item_write P D it (fold (item_write P D) pre a) n"
  using assms by (simp add: fold_item_write_frame)

lemma optional_target:
  assumes "wf_decls D" "d \<in> set (OPTIONAL_ARGS D)"
  shows "item_target D it = Some (o_name d) \<longleftrightarrow> (\<exists>v. it = Opt (o_flag d) v)"
proof (cases it)
  case (Opt f v)
  show ?thesis
  proof
    assume "item_target D it = Some (o_name d)"
    with Opt obtain d' where d': "find (\<lambda>d. f = o_flag d) (OPTIONAL_ARGS D) = Some d'"
      "o_name d' = o_name d" by auto
    from find_Some_flag[OF d'(1)] have "d' \<in> set (OPTIONAL_ARGS D)" "o_flag d' = f" by auto
    with d'(2) assms(2) wf_decls_names(2)[OF assms(1)] have "d' = d"
      by (metis distinct_map inj_onD)
    with \<open>o_flag d' = f\<close> Opt show "\<exists>v. it = Opt (o_flag d) v" by simp
  next
    assume "\<exists>v. it = Opt (o_flag d) v"
    with Opt have "f = o_flag d" by simp
    with find_optional[OF wf_decls_flags(1)[OF assms(1)] assms(2)] Opt
    show "item_target D it = Some (o_name d)" by simp
  qed
next
  case (Flag f)
  have "item_target D it \<noteq> Some (o_name d)"
  proof
    assume "item_target D it = Some (o_name d)"
    with Flag obtain b where b: "find (\<lambda>b. f = b_flag b) (BOOLEAN_ARGS D) = Some b"
      "b_name b = o_name d" by auto
    from find_Some_flag[OF b(1)] have "b \<in> set (BOOLEAN_ARGS D)" by auto
    with b(2) assms(2) wf_decls_names(6)[OF assms(1)] show False by (metis IntI empty_iff imageI)
  qed
  with Flag show ?thesis by simp
next
  case (Other t)
  then show ?thesis by simp
qed

lemma boolean_target:
  assumes "wf_decls D" "b \<in> set (BOOLEAN_ARGS D)"
  shows "item_target D it = Some (b_name b) \<longleftrightarrow> it = Flag (b_flag b)"
proof (cases it)
  case (Opt f v)
  have "item_target D it \<noteq> Some (b_name b)"
  proof
    assume "item_target D it = Some (b_name b)"
    with Opt obtain d where d: "find (\<lambda>d. f = o_flag d) (OPTIONAL_ARGS D) = Some d"
      "o_name d = b_name b" by auto
    from find_Some_flag[OF d(1)] have "d \<in> set (OPTIONAL_ARGS D)" by auto
    with d(2) assms(2) wf_decls_names(6)[OF assms(1)] show False by (metis IntI empty_iff imageI)
  qed
  with Opt show ?thesis by simp
next
  case (Flag f)
  show ?thesis
  proof
    assume "item_target D it = Some (b_name b)"
    with Flag obtain b' where b': "find (\<lambda>b. f = b_flag b) (BOOLEAN_ARGS D) = Some b'"
      "b_name b' = b_name b" by auto
    from find_Some_flag[OF b'(1)] have "b' \<in> set (BOOLEAN_ARGS D)" "b_flag b' = f" by auto
    with b'(2) assms(2) wf_decls_names(3)[OF assms(1)] have "b' = b"
      by (metis distinct_map inj_onD)
    with \<open>b_flag b' = f\<close> Flag show "it = Flag (b_flag b)" by simp
  next
    assume "it = Flag (b_flag b)"
    with find_boolean[OF wf_decls_flags(2)[OF assms(1)] assms(2)]
    show "item_target D it = Some (b_name b)" by simp
  qed
next
  case (Other t)
  then show ?thesis by simp
qed

lemma required_target:
  assumes "wf_decls D" "r \<in> set (REQUIRED_ARGS D)"
  shows "item_target D it \<noteq> Some (r_name r)"
proof
  assume t: "item_target D it = Some (r_name r)"
  show False
  proof (cases it)
    case (Opt f v)
    with t obtain d where d: "find (\<lambda>d. f = o_flag d) (OPTIONAL_ARGS D) = Some d"
      "o_name d = r_name r" by auto
    from find_Some_flag[OF d(1)] have "d \<in> set (OPTIONAL_ARGS D)" by auto
    with d(2) assms(2) wf_decls_names(4)[OF assms(1)] show False by (metis IntI empty_iff imageI)
  next
    case (Flag f)
    with t obtain b where b: "find (\<lambda>b. f = b_flag b) (BOOLEAN_ARGS D) = Some b"
      "b_name b = r_name r" by auto
    from find_Some_flag[OF b(1)] have "b \<in> set (BOOLEAN_ARGS D)" by auto
    with b(2) assms(2) wf_decls_names(5)[OF assms(1)] show False by (metis IntI empty_iff imageI)
  next
    case (Other t)
    with t show False by simp
  qed
qed

section \<open>The required arguments\<close>

lemma required_args_ok:
  "i + length ds \<le> length av \<Longrightarrow>
   (\<forall>k<length ds. conv_ok (parser_of P (r_type (ds ! k)) (Some (av ! (i + k))))) \<Longrightarrow>
   required_args P ds av i a e =
     Continue (i + length ds) (fold (req_write P) (zip ds (drop i av)) a) e"
proof (induction ds arbitrary: i a e)
  case Nil
  then show ?case by simp
next
  case (Cons d ds)
  from Cons.prems(1) have i: "i < length av" by simp
  then have dr: "drop i av = av ! i # drop (Suc i) av" by (simp add: Cons_nth_drop_Suc)
  obtain x ok m where p: "parser_of P (r_type d) (Some (av ! i)) = (x, ok, m)"
    by (cases "parser_of P (r_type d) (Some (av ! i))") auto
  from Cons.prems(2)[rule_format, of 0] p have ok: "ok" by (simp add: conv_ok_def)
  with p have m: "m = []" by (auto dest: parser_of_ok_silent)
  have rest: "\<forall>k<length ds. conv_ok (parser_of P (r_type (ds ! k)) (Some (av ! (Suc i + k))))"
  proof (intro allI impI)
    fix k assume "k < length ds"
    with Cons.prems(2)[rule_format, of "Suc k"] show
      "conv_ok (parser_of P (r_type (ds ! k)) (Some (av ! (Suc i + k))))" by simp
  qed
  have "required_args P (d # ds) av i a e = required_args P ds av (Suc i) (a(r_name d \<mapsto> x)) e"
    using i p ok m by simp
  also have "\<dots> = Continue (Suc i + length ds)
      (fold (req_write P) (zip ds (drop (Suc i) av)) (a(r_name d \<mapsto> x))) e"
    by (rule Cons.IH) (use Cons.prems(1) rest in simp_all)
  also have "\<dots> = Continue (i + length (d # ds)) (fold (req_write P) (zip (d # ds) (drop i av)) a) e"
    using p by (simp add: dr req_write_def conv_value_def)
  finally show ?case .
qed

lemma required_args_fail:
  "i + length ds \<le> length av \<Longrightarrow>
   \<not> (\<forall>k<length ds. conv_ok (parser_of P (r_type (ds ! k)) (Some (av ! (i + k))))) \<Longrightarrow>
   \<exists>a' e'. required_args P ds av i a e = Return 0 a' e'"
proof (induction ds arbitrary: i a e)
  case Nil
  then show ?case by simp
next
  case (Cons d ds)
  from Cons.prems(1) have i: "i < length av" by simp
  obtain x ok m where p: "parser_of P (r_type d) (Some (av ! i)) = (x, ok, m)"
    by (cases "parser_of P (r_type d) (Some (av ! i))") auto
  show ?case
  proof (cases ok)
    case False
    with i p show ?thesis by simp
  next
    case True
    have "\<not> (\<forall>k<length ds. conv_ok (parser_of P (r_type (ds ! k)) (Some (av ! (Suc i + k)))))"
    proof
      assume h: "\<forall>k<length ds. conv_ok (parser_of P (r_type (ds ! k)) (Some (av ! (Suc i + k))))"
      have "\<forall>k<length (d # ds). conv_ok (parser_of P (r_type ((d # ds) ! k)) (Some (av ! (i + k))))"
      proof (intro allI impI)
        fix k assume k: "k < length (d # ds)"
        show "conv_ok (parser_of P (r_type ((d # ds) ! k)) (Some (av ! (i + k))))"
        proof (cases k)
          case 0
          with p True show ?thesis by (simp add: conv_ok_def)
        next
          case (Suc j)
          with k h[rule_format, of j] show ?thesis by simp
        qed
      qed
      with Cons.prems(2) show False by blast
    qed
    then have "\<exists>a' e'. required_args P ds av (Suc i) (a(r_name d \<mapsto> x)) (e @ m) = Return 0 a' e'"
      by (intro Cons.IH) (use Cons.prems(1) in simp_all)
    then obtain a' e' where
      "required_args P ds av (Suc i) (a(r_name d \<mapsto> x)) (e @ m) = Return 0 a' e'"
      by blast
    with i p True show ?thesis by (simp del: fun_upd_apply)
  qed
qed

lemma fold_req_write_frame:
  "n \<notin> r_name ` set ds \<Longrightarrow> fold (req_write P) (zip ds ts) a n = a n"
proof (induction ds arbitrary: ts a)
  case Nil
  then show ?case by simp
next
  case (Cons d ds)
  then show ?case by (cases ts) (simp_all add: req_write_def)
qed

lemma fold_req_write_nth:
  "distinct (map r_name ds) \<Longrightarrow> k < length ds \<Longrightarrow> k < length ts \<Longrightarrow>
   fold (req_write P) (zip ds ts) a (r_name (ds ! k)) =
     Some (conv_value (parser_of P (r_type (ds ! k)) (Some (ts ! k))))"
proof (induction ds arbitrary: ts k a)
  case Nil
  then show ?case by simp
next
  case (Cons d ds)
  then obtain t ts' where ts: "ts = t # ts'" by (cases ts) auto
  show ?case
  proof (cases k)
    case 0
    from Cons.prems(1) have "r_name d \<notin> r_name ` set ds" by simp
    then show ?thesis using 0 ts by (simp add: fold_req_write_frame) (simp add: req_write_def)
  next
    case (Suc j)
    with Cons.prems ts show ?thesis by (simp add: Cons.IH)
  qed
qed

section \<open>The defaults\<close>

lemma foldl_store_frame:
  "n \<notin> key ` set ds \<Longrightarrow> foldl (\<lambda>a d. a(key d \<mapsto> v d)) a ds n = a n"
  by (induction ds arbitrary: a) simp_all

lemma foldl_store_mem:
  "distinct (map key ds) \<Longrightarrow> d \<in> set ds \<Longrightarrow>
   foldl (\<lambda>a d. a(key d \<mapsto> v d)) a ds (key d) = Some (v d)"
proof (induction ds arbitrary: a)
  case Nil
  then show ?case by simp
next
  case (Cons x xs)
  show ?case
  proof (cases "d = x")
    case True
    from Cons.prems(1) have "key x \<notin> key ` set xs" by simp
    with True show ?thesis by (simp add: foldl_store_frame del: fun_upd_apply) simp
  next
    case False
    with Cons show ?thesis by simp
  qed
qed

lemma make_default_args_required:
  assumes "distinct (field_names D)" "r \<in> set (REQUIRED_ARGS D)"
  shows "make_default_args D (r_name r) = Some (zero_of (r_type r))"
proof -
  from assms field_names_distinct(4,5)[OF assms(1)]
  have "r_name r \<notin> o_name ` set (OPTIONAL_ARGS D)" "r_name r \<notin> b_name ` set (BOOLEAN_ARGS D)"
    by blast+
  then show ?thesis
    unfolding make_default_args_def
    by (simp add: foldl_store_frame foldl_store_mem[OF field_names_distinct(1)[OF assms(1)] assms(2)])
qed

lemma make_default_args_optional:
  assumes "distinct (field_names D)" "d \<in> set (OPTIONAL_ARGS D)"
  shows "make_default_args D (o_name d) = Some (o_default d)"
proof -
  from assms field_names_distinct(6)[OF assms(1)]
  have "o_name d \<notin> b_name ` set (BOOLEAN_ARGS D)" by blast
  then show ?thesis
    unfolding make_default_args_def
    by (simp add: foldl_store_frame foldl_store_mem[OF field_names_distinct(2)[OF assms(1)] assms(2)])
qed

lemma make_default_args_boolean:
  assumes "distinct (field_names D)" "b \<in> set (BOOLEAN_ARGS D)"
  shows "make_default_args D (b_name b) = Some (V_bool False)"
  unfolding make_default_args_def
  by (rule foldl_store_mem[OF field_names_distinct(3)[OF assms(1)] assms(2)])

lemma make_default_args_undeclared:
  "n \<notin> set (field_names D) \<Longrightarrow> make_default_args D n = None"
  unfolding make_default_args_def field_names_def
  by (simp add: foldl_store_frame)

lemma example_decls_wf: "wf_decls example_decls"
  by (simp add: wf_decls_def field_names_def flag_tokens_def example_decls_def)

section \<open>Claims about the defaults\<close>

text \<open>
  Claim C6. \<^verbatim>\<open>make_default_args\<close> takes no argument but the declarations and always returns
  a container. In it every required field holds the zero of its type, every optional field
  its declared default and every boolean field false, and there is no other field. A
  container with these fields is the one \<^verbatim>\<open>make_default_args\<close> returns, so two calls give
  containers equal in every field. The field names of a struct are distinct.
\<close>

theorem make_default_args_fields:
  assumes "distinct (field_names D)"
  shows "(\<forall>r\<in>set (REQUIRED_ARGS D). make_default_args D (r_name r) = Some (zero_of (r_type r)))
    \<and> (\<forall>d\<in>set (OPTIONAL_ARGS D). make_default_args D (o_name d) = Some (o_default d))
    \<and> (\<forall>b\<in>set (BOOLEAN_ARGS D). make_default_args D (b_name b) = Some (V_bool False))
    \<and> (\<forall>n. n \<notin> set (field_names D) \<longrightarrow> make_default_args D n = None)
    \<and> (\<forall>a. (\<forall>r\<in>set (REQUIRED_ARGS D). a (r_name r) = Some (zero_of (r_type r)))
          \<and> (\<forall>d\<in>set (OPTIONAL_ARGS D). a (o_name d) = Some (o_default d))
          \<and> (\<forall>b\<in>set (BOOLEAN_ARGS D). a (b_name b) = Some (V_bool False))
          \<and> (\<forall>n. n \<notin> set (field_names D) \<longrightarrow> a n = None)
          \<longrightarrow> a = make_default_args D)"
proof (intro conjI ballI allI impI)
  fix a :: "'a args_t"
  assume a: "(\<forall>r\<in>set (REQUIRED_ARGS D). a (r_name r) = Some (zero_of (r_type r)))
          \<and> (\<forall>d\<in>set (OPTIONAL_ARGS D). a (o_name d) = Some (o_default d))
          \<and> (\<forall>b\<in>set (BOOLEAN_ARGS D). a (b_name b) = Some (V_bool False))
          \<and> (\<forall>n. n \<notin> set (field_names D) \<longrightarrow> a n = None)"
  show "a = make_default_args D"
  proof
    fix n
    consider r where "r \<in> set (REQUIRED_ARGS D)" "n = r_name r"
      | d where "d \<in> set (OPTIONAL_ARGS D)" "n = o_name d"
      | b where "b \<in> set (BOOLEAN_ARGS D)" "n = b_name b"
      | "n \<notin> set (field_names D)"
      by (auto simp: field_names_def)
    then show "a n = make_default_args D n"
    proof cases
      case 1
      with a make_default_args_required[OF assms] show ?thesis by simp
    next
      case 2
      with a make_default_args_optional[OF assms] show ?thesis by simp
    next
      case 3
      with a make_default_args_boolean[OF assms] show ?thesis by simp
    next
      case 4
      with a make_default_args_undeclared[of n D] show ?thesis by simp
    qed
  qed
qed (simp_all add: make_default_args_required[OF assms] make_default_args_optional[OF assms]
       make_default_args_boolean[OF assms] make_default_args_undeclared)

theorem make_default_args_fields_witness:
  "distinct (field_names example_decls)
   \<and> make_default_args example_decls ''count'' = Some (V_int 0)
   \<and> make_default_args example_decls ''name'' = Some (V_str (Some ''anon''))
   \<and> make_default_args example_decls ''verbose'' = Some (V_bool False)
   \<and> make_default_args example_decls ''other'' = None"
proof -
  have d: "distinct (field_names example_decls)"
    by (simp add: field_names_def example_decls_def)
  from make_default_args_fields[OF d] d show ?thesis
    by (simp add: example_decls_def field_names_def)
qed

section \<open>The whole of \<^verbatim>\<open>parse_args\<close> on a well-formed call\<close>

text \<open>
  A call as \<^verbatim>\<open>main\<close> makes it: \<^verbatim>\<open>argc\<close> is the number of tokens, the program name first. With
  as many tokens \<open>reqs\<close> as there are required declarations, the loop runs on the tokens
  after them once every required token converts.
\<close>

lemma required_convert_nth:
  assumes "length reqs = length (REQUIRED_ARGS D)"
  shows "required_convert P D reqs \<longleftrightarrow>
     (\<forall>k<length (REQUIRED_ARGS D).
        conv_ok (parser_of P (r_type (REQUIRED_ARGS D ! k)) (Some ((prog # reqs @ ts) ! (1 + k)))))"
  using assms
  by (simp add: required_convert_def list_all_length nth_append)

lemma parse_args_tokens:
  assumes "length reqs = length (REQUIRED_ARGS D)" "required_convert P D reqs"
  shows "parse_args P D (int (length (prog # reqs @ ts))) (Some (prog # reqs @ ts)) args =
     walk_list P D ts (fold (req_write P) (zip (REQUIRED_ARGS D) reqs) args) []"
proof -
  let ?av = "prog # reqs @ ts"
  have z: "zip (REQUIRED_ARGS D) (drop 1 ?av) = zip (REQUIRED_ARGS D) reqs"
    using assms(1) by (simp add: zip_append2)
  have "required_args P (REQUIRED_ARGS D) ?av 1 args [] =
      Continue (1 + length (REQUIRED_ARGS D))
        (fold (req_write P) (zip (REQUIRED_ARGS D) (drop 1 ?av)) args) []"
    by (rule required_args_ok)
       (use assms required_convert_nth[OF assms(1), of P prog ts] in simp_all)
  then have r: "required_args P (REQUIRED_ARGS D) ?av 1 args [] =
      Continue (1 + length (REQUIRED_ARGS D))
        (fold (req_write P) (zip (REQUIRED_ARGS D) reqs) args) []"
    by (simp only: z)
  have w: "walk P D (int (length ?av)) ?av (1 + length (REQUIRED_ARGS D)) a e = walk_list P D ts a e"
    for a e
    using walk_is_walk_list[of "int (length ?av)" ?av "1 + length (REQUIRED_ARGS D)" P D a e] assms(1)
    by simp
  have n: "nat (1 + REQUIRED_ARG_COUNT D) = 1 + length (REQUIRED_ARGS D)"
    by (simp add: REQUIRED_ARG_COUNT_def)
  have g: "(int (length ?av) = 0) = False" "(int (length ?av) < 1 + REQUIRED_ARG_COUNT D) = False"
    using assms(1) by (simp_all add: REQUIRED_ARG_COUNT_def)
  show ?thesis
    by (simp only: parse_args_def option.case g if_False r flow.case n w)
qed

lemma parse_args_required_fail:
  assumes "length reqs = length (REQUIRED_ARGS D)" "\<not> required_convert P D reqs"
  shows "\<exists>a e. parse_args P D (int (length (prog # reqs @ ts))) (Some (prog # reqs @ ts)) args =
     Return 0 a e"
proof -
  let ?av = "prog # reqs @ ts"
  have "\<exists>a e. required_args P (REQUIRED_ARGS D) ?av 1 args [] = Return 0 a e"
    by (rule required_args_fail)
       (use assms required_convert_nth[OF assms(1), of P prog ts] in simp_all)
  then obtain a e where "required_args P (REQUIRED_ARGS D) ?av 1 args [] = Return 0 a e" by blast
  moreover have "(int (length ?av) = 0) = False"
    "(int (length ?av) < 1 + REQUIRED_ARG_COUNT D) = False"
    using assms(1) by (simp_all add: REQUIRED_ARG_COUNT_def)
  ultimately show ?thesis
    by (simp only: parse_args_def option.case if_False flow.case) blast
qed

lemma parse_args_items:
  assumes "wf_decls D" "length reqs = length (REQUIRED_ARGS D)" "required_convert P D reqs"
    "list_all (item_declared D) items" "list_all (item_converts P D) items"
  shows "parse_args P D (int (length (prog # reqs @ tokens_of_items items)))
           (Some (prog # reqs @ tokens_of_items items)) args =
         Return 1 (fold (item_write P D) items (fold (req_write P) (zip (REQUIRED_ARGS D) reqs) args))
           (concat (map item_warning items))"
  using walk_list_items[OF assms(1,4,5), where ts="[]"]
  by (simp only: parse_args_tokens[OF assms(2,3)] append_Nil2 walk_list.simps append_Nil)

lemma parse_args_items_fail:
  assumes "wf_decls D" "length reqs = length (REQUIRED_ARGS D)"
    "list_all (item_declared D) items"
    "\<not> (required_convert P D reqs \<and> list_all (item_converts P D) items)"
  shows "\<exists>a e. parse_args P D (int (length (prog # reqs @ tokens_of_items items)))
           (Some (prog # reqs @ tokens_of_items items)) args = Return 0 a e"
proof (cases "required_convert P D reqs")
  case True
  with assms(4) have "\<not> list_all (item_converts P D) items" by simp
  from walk_list_items_fail[OF assms(1,3) this, where ts="[]"] show ?thesis
    by (simp only: parse_args_tokens[OF assms(2) True] append_Nil2)
next
  case False
  then show ?thesis by (rule parse_args_required_fail[OF assms(2)])
qed

section \<open>The fields after a successful parse\<close>

lemma fold_item_write_required:
  assumes "wf_decls D" "r \<in> set (REQUIRED_ARGS D)"
  shows "fold (item_write P D) items a (r_name r) = a (r_name r)"
  by (rule fold_item_write_frame) (simp add: required_target[OF assms])

lemma fold_item_write_optional_omitted:
  assumes "wf_decls D" "d \<in> set (OPTIONAL_ARGS D)" "\<forall>v. Opt (o_flag d) v \<notin> set items"
  shows "fold (item_write P D) items a (o_name d) = a (o_name d)"
proof (rule fold_item_write_frame, rule ballI)
  fix it assume "it \<in> set items"
  with assms(3) have "\<not> (\<exists>v. it = Opt (o_flag d) v)" by blast
  then show "item_target D it \<noteq> Some (o_name d)"
    by (simp add: optional_target[OF assms(1,2)])
qed

lemma fold_item_write_optional_last:
  assumes "wf_decls D" "d \<in> set (OPTIONAL_ARGS D)"
    "items = pre @ Opt (o_flag d) v # post" "\<forall>w. Opt (o_flag d) w \<notin> set post"
  shows "fold (item_write P D) items a (o_name d) =
     Some (conv_value (parser_of P (o_type d) (Some v)))"
proof -
  have "\<forall>it\<in>set post. item_target D it \<noteq> Some (o_name d)"
  proof
    fix it assume "it \<in> set post"
    with assms(4) have "\<not> (\<exists>v. it = Opt (o_flag d) v)" by blast
    then show "item_target D it \<noteq> Some (o_name d)"
      by (simp add: optional_target[OF assms(1,2)])
  qed
  then have "fold (item_write P D) items a (o_name d) =
      item_write P D (Opt (o_flag d) v) (fold (item_write P D) pre a) (o_name d)"
    unfolding assms(3) by (rule fold_item_write_last)
  also have "\<dots> = Some (conv_value (parser_of P (o_type d) (Some v)))"
    by (simp add: find_optional[OF wf_decls_flags(1)[OF assms(1)] assms(2)])
  finally show ?thesis .
qed

lemma fold_item_write_boolean:
  assumes "wf_decls D" "b \<in> set (BOOLEAN_ARGS D)"
  shows "fold (item_write P D) items a (b_name b) =
     (if Flag (b_flag b) \<in> set items then Some (V_bool True) else a (b_name b))"
proof (cases "Flag (b_flag b) \<in> set items")
  case False
  have "fold (item_write P D) items a (b_name b) = a (b_name b)"
  proof (rule fold_item_write_frame, rule ballI)
    fix it assume "it \<in> set items"
    with False have "it \<noteq> Flag (b_flag b)" by blast
    then show "item_target D it \<noteq> Some (b_name b)"
      by (simp add: boolean_target[OF assms])
  qed
  with False show ?thesis by simp
next
  case True
  then obtain pre post where s: "items = pre @ Flag (b_flag b) # post"
    "Flag (b_flag b) \<notin> set post"
    by (auto dest: split_list_last)
  have "\<forall>it\<in>set post. item_target D it \<noteq> Some (b_name b)"
  proof
    fix it assume "it \<in> set post"
    with s(2) have "it \<noteq> Flag (b_flag b)" by blast
    then show "item_target D it \<noteq> Some (b_name b)"
      by (simp add: boolean_target[OF assms])
  qed
  then have "fold (item_write P D) items a (b_name b) =
      item_write P D (Flag (b_flag b)) (fold (item_write P D) pre a) (b_name b)"
    unfolding s(1) by (rule fold_item_write_last)
  also have "\<dots> = Some (V_bool True)"
    by (simp add: find_boolean[OF wf_decls_flags(2)[OF assms(1)] assms(2)])
  finally show ?thesis using True by simp
qed

lemma wf_decls_field_names: "wf_decls D \<Longrightarrow> distinct (field_names D)"
  by (simp add: wf_decls_def)

lemma required_fields_after_defaults:
  fixes P :: "('f::zero) platform" and D :: "'f decls"
  assumes "wf_decls D" "length reqs = length (REQUIRED_ARGS D)"
  defines "a0 \<equiv> fold (req_write P) (zip (REQUIRED_ARGS D) reqs) (make_default_args D)"
  shows "k < length reqs \<Longrightarrow> a0 (r_name (REQUIRED_ARGS D ! k)) =
           Some (conv_value (parser_of P (r_type (REQUIRED_ARGS D ! k)) (Some (reqs ! k))))"
    and "d \<in> set (OPTIONAL_ARGS D) \<Longrightarrow> a0 (o_name d) = Some (o_default d)"
    and "b \<in> set (BOOLEAN_ARGS D) \<Longrightarrow> a0 (b_name b) = Some (V_bool False)"
proof -
  note dn = wf_decls_field_names[OF assms(1)]
  show "k < length reqs \<Longrightarrow> a0 (r_name (REQUIRED_ARGS D ! k)) =
           Some (conv_value (parser_of P (r_type (REQUIRED_ARGS D ! k)) (Some (reqs ! k))))"
    unfolding a0_def using assms(2)
    by (intro fold_req_write_nth wf_decls_names(1)[OF assms(1)]) simp_all
  show "a0 (o_name d) = Some (o_default d)" if d: "d \<in> set (OPTIONAL_ARGS D)"
  proof -
    from d wf_decls_names(4)[OF assms(1)] have "o_name d \<notin> r_name ` set (REQUIRED_ARGS D)"
      by blast
    then show ?thesis
      unfolding a0_def by (simp add: fold_req_write_frame make_default_args_optional[OF dn d])
  qed
  show "a0 (b_name b) = Some (V_bool False)" if b: "b \<in> set (BOOLEAN_ARGS D)"
  proof -
    from b wf_decls_names(5)[OF assms(1)] have "b_name b \<notin> r_name ` set (REQUIRED_ARGS D)"
      by blast
    then show ?thesis
      unfolding a0_def by (simp add: fold_req_write_frame make_default_args_boolean[OF dn b])
  qed
qed

section \<open>Claims about a successful parse\<close>

lemma parse_args_success_converts:
  assumes "wf_decls D" "length reqs = length (REQUIRED_ARGS D)"
    "list_all (item_declared D) items"
    "parse_args P D (int (length (prog # reqs @ tokens_of_items items)))
       (Some (prog # reqs @ tokens_of_items items)) args = Return 1 a e"
  shows "required_convert P D reqs" "list_all (item_converts P D) items"
proof -
  have "required_convert P D reqs \<and> list_all (item_converts P D) items"
  proof (rule ccontr)
    assume "\<not> (required_convert P D reqs \<and> list_all (item_converts P D) items)"
    from parse_args_items_fail[OF assms(1,2,3) this, of prog args] assms(4)
    show False by simp
  qed
  then show "required_convert P D reqs" "list_all (item_converts P D) items" by simp_all
qed

text \<open>
  Claim C1, amended. The tokens are the program name, one token per required declaration,
  each converting under the converter of its declaration, and then a sequence of items:
  flags of optional declarations, each followed by a value that converts, flags of
  boolean declarations, and tokens that are no flag. On the container of
  \<^verbatim>\<open>make_default_args\<close>, \<^verbatim>\<open>parse_args\<close> returns 1 and writes one warning per token that is no
  flag. Afterwards each required field holds the converted value of its token; an optional
  field whose flag starts no item holds its default; an optional field holds the converted
  value of the last item that its flag starts; and a boolean field is true exactly when
  its flag is one of the items. A flag token that only stands as the value after an
  optional flag is not an item: it does not set its field.
\<close>

theorem parse_args_fills_fields:
  assumes "wf_decls D"
    and "length reqs = length (REQUIRED_ARGS D)"
    and "required_convert P D reqs"
    and "list_all (item_declared D) items"
    and "list_all (item_converts P D) items"
  shows "\<exists>a. parse_args P D (int (length (prog # reqs @ tokens_of_items items)))
             (Some (prog # reqs @ tokens_of_items items)) (make_default_args D) =
           Return 1 a (concat (map item_warning items))
     \<and> (\<forall>k<length reqs. a (r_name (REQUIRED_ARGS D ! k)) =
           Some (conv_value (parser_of P (r_type (REQUIRED_ARGS D ! k)) (Some (reqs ! k)))))
     \<and> (\<forall>d\<in>set (OPTIONAL_ARGS D).
           (\<forall>v. Opt (o_flag d) v \<notin> set items) \<longrightarrow> a (o_name d) = Some (o_default d))
     \<and> (\<forall>d\<in>set (OPTIONAL_ARGS D). \<forall>pre v post.
           items = pre @ Opt (o_flag d) v # post \<and> (\<forall>w. Opt (o_flag d) w \<notin> set post) \<longrightarrow>
           a (o_name d) = Some (conv_value (parser_of P (o_type d) (Some v))))
     \<and> (\<forall>b\<in>set (BOOLEAN_ARGS D).
           a (b_name b) = Some (V_bool (Flag (b_flag b) \<in> set items)))"
proof -
  define a0 where "a0 = fold (req_write P) (zip (REQUIRED_ARGS D) reqs) (make_default_args D)"
  define a where "a = fold (item_write P D) items a0"
  note rf = required_fields_after_defaults[OF assms(1,2), of _ P, folded a0_def]
  have p: "parse_args P D (int (length (prog # reqs @ tokens_of_items items)))
             (Some (prog # reqs @ tokens_of_items items)) (make_default_args D) =
           Return 1 a (concat (map item_warning items))"
    unfolding a_def a0_def by (rule parse_args_items[OF assms])
  have r: "a (r_name (REQUIRED_ARGS D ! k)) =
           Some (conv_value (parser_of P (r_type (REQUIRED_ARGS D ! k)) (Some (reqs ! k))))"
    if "k < length reqs" for k
  proof -
    from that assms(2) have "REQUIRED_ARGS D ! k \<in> set (REQUIRED_ARGS D)" by simp
    from fold_item_write_required[OF assms(1) this] rf(1)[OF that]
    show ?thesis by (simp add: a_def)
  qed
  have o1: "a (o_name d) = Some (o_default d)"
    if "d \<in> set (OPTIONAL_ARGS D)" "\<forall>v. Opt (o_flag d) v \<notin> set items" for d
    using fold_item_write_optional_omitted[OF assms(1) that] rf(2)[OF that(1)]
    by (simp add: a_def)
  have o2: "a (o_name d) = Some (conv_value (parser_of P (o_type d) (Some v)))"
    if "d \<in> set (OPTIONAL_ARGS D)" "items = pre @ Opt (o_flag d) v # post"
      "\<forall>w. Opt (o_flag d) w \<notin> set post" for d pre v post
    unfolding a_def by (rule fold_item_write_optional_last[OF assms(1) that])
  have b: "a (b_name b) = Some (V_bool (Flag (b_flag b) \<in> set items))"
    if "b \<in> set (BOOLEAN_ARGS D)" for b
    using fold_item_write_boolean[OF assms(1) that, of P items a0] rf(3)[OF that]
    by (simp add: a_def)
  show ?thesis
    using p r o1 o2 b by blast
qed

theorem parse_args_fills_fields_witness:
  "wf_decls example_decls
   \<and> length [''5''] = length (REQUIRED_ARGS example_decls)
   \<and> required_convert lp64 example_decls [''5'']
   \<and> list_all (item_declared example_decls) [Opt ''--name'' ''Ada'', Flag ''--verbose'']
   \<and> list_all (item_converts lp64 example_decls) [Opt ''--name'' ''Ada'', Flag ''--verbose'']
   \<and> (\<exists>a. parse_args lp64 example_decls 5
             (Some [''prog'', ''5'', ''--name'', ''Ada'', ''--verbose''])
             (make_default_args example_decls) = Return 1 a []
         \<and> a ''count'' = Some (V_int 5)
         \<and> a ''name'' = Some (V_str (Some ''Ada''))
         \<and> a ''verbose'' = Some (V_bool True))"
proof -
  let ?items = "[Opt ''--name'' ''Ada'', Flag ''--verbose'']"
  have h2: "length [''5''] = length (REQUIRED_ARGS example_decls)"
    by (simp add: example_decls_def)
  have h3: "required_convert lp64 example_decls [''5'']"
    by code_simp
  have h4: "list_all (item_declared example_decls) ?items"
    by (simp add: example_decls_def)
  have h5: "list_all (item_converts lp64 example_decls) ?items"
    by code_simp
  from parse_args_fills_fields[OF example_decls_wf h2 h3 h4 h5, of "''prog''"]
  obtain a where p: "parse_args lp64 example_decls
        (int (length (''prog'' # [''5''] @ tokens_of_items ?items)))
        (Some (''prog'' # [''5''] @ tokens_of_items ?items)) (make_default_args example_decls) =
        Return 1 a (concat (map item_warning ?items))"
    and r: "\<forall>k<length [''5'']. a (r_name (REQUIRED_ARGS example_decls ! k)) =
        Some (conv_value (parser_of lp64 (r_type (REQUIRED_ARGS example_decls ! k))
          (Some ([''5''] ! k))))"
    and o: "\<forall>d\<in>set (OPTIONAL_ARGS example_decls). \<forall>pre v post.
        ?items = pre @ Opt (o_flag d) v # post \<and> (\<forall>w. Opt (o_flag d) w \<notin> set post) \<longrightarrow>
        a (o_name d) = Some (conv_value (parser_of lp64 (o_type d) (Some v)))"
    and b: "\<forall>b\<in>set (BOOLEAN_ARGS example_decls).
        a (b_name b) = Some (V_bool (Flag (b_flag b) \<in> set ?items))"
    by blast
  have p': "parse_args lp64 example_decls 5
      (Some [''prog'', ''5'', ''--name'', ''Ada'', ''--verbose''])
      (make_default_args example_decls) = Return 1 a []"
    using p by (simp add: tokens_of_items_def)
  have c: "a ''count'' = Some (V_int 5)"
    using r[rule_format, of 0]
    by (simp add: example_decls_def conv_value_def easyargs_parse_int_def
          signed_integer_parser_def strtoll_def strto_scan_def isspace_def is_digit_def
          digit_val_def lp64_def)
  have n: "a ''name'' = Some (V_str (Some ''Ada''))"
    using o[rule_format, of "hd (OPTIONAL_ARGS example_decls)" "[]" "''Ada''" "[Flag ''--verbose'']"]
    by (simp add: example_decls_def conv_value_def easyargs_parse_str_def)
  have v: "a ''verbose'' = Some (V_bool True)"
    using b by (simp add: example_decls_def)
  from example_decls_wf h2 h3 h4 h5 p' c n v show ?thesis by blast
qed

text \<open>
  Claim C1 as stated fails where a flag token stands as a value: in
  \<^verbatim>\<open>prog 5 --name --verbose\<close> the token \<^verbatim>\<open>--verbose\<close> is the value of \<^verbatim>\<open>--name\<close>. The call returns
  1, the token \<^verbatim>\<open>--verbose\<close> is among the tokens, and the field \<^verbatim>\<open>verbose\<close> is false.
\<close>

theorem parse_args_flag_token_as_value:
  "[''prog'', ''5'', ''--name'', ''--verbose''] =
      ''prog'' # [''5''] @ tokens_of_items [Opt ''--name'' ''--verbose'']
   \<and> list_all (item_declared example_decls) [Opt ''--name'' ''--verbose'']
   \<and> list_all (item_converts lp64 example_decls) [Opt ''--name'' ''--verbose'']
   \<and> required_convert lp64 example_decls [''5'']
   \<and> ''--verbose'' \<in> set [''prog'', ''5'', ''--name'', ''--verbose'']
   \<and> ret_code (parse_args lp64 example_decls 4 (Some [''prog'', ''5'', ''--name'', ''--verbose''])
        (make_default_args example_decls)) = Some 1
   \<and> field (parse_args lp64 example_decls 4 (Some [''prog'', ''5'', ''--name'', ''--verbose''])
        (make_default_args example_decls)) ''verbose'' = Some (V_bool False)
   \<and> field (parse_args lp64 example_decls 4 (Some [''prog'', ''5'', ''--name'', ''--verbose''])
        (make_default_args example_decls)) ''name'' = Some (V_str (Some ''--verbose''))"
  by code_simp

section \<open>Claims about tokens that are no flag\<close>

lemma loop_body_unknown:
  assumes "i < length argv" "argv ! i \<notin> set (flag_tokens D)"
  shows "loop_body P D argc argv i a e =
     Continue (i + 1) a (e @ [''Warning: Ignoring invalid argument '' @ squote (argv ! i)])"
proof -
  from assms(2) have "find (\<lambda>d. argv ! i = o_flag d) (OPTIONAL_ARGS D) = None"
    "find (\<lambda>b. argv ! i = b_flag b) (BOOLEAN_ARGS D) = None"
    by (auto simp: find_None_flag flag_tokens_def)
  with assms(1) show ?thesis by (simp add: loop_body_def)
qed

lemma fold_item_write_known:
  "fold (item_write P D) (filter (\<lambda>it. \<not> is_Other it) items) a = fold (item_write P D) items a"
proof (induction items arbitrary: a)
  case Nil
  then show ?case by simp
next
  case (Cons it items)
  then show ?case by (cases it) simp_all
qed

lemma item_converts_known:
  "list_all (item_converts P D) (filter (\<lambda>it. \<not> is_Other it) items) \<longleftrightarrow>
   list_all (item_converts P D) items"
proof (induction items)
  case Nil
  then show ?case by simp
next
  case (Cons it items)
  then show ?case by (cases it) simp_all
qed

lemma item_warning_known: "concat (map item_warning (filter (\<lambda>it. \<not> is_Other it) items)) = []"
proof (induction items)
  case Nil
  then show ?case by simp
next
  case (Cons it items)
  then show ?case by (cases it) simp_all
qed

text \<open>
  Claim C3. A round of the loop at a token that is the flag of no optional and of no boolean
  declaration writes the warning that names the token and goes on at the next index; it
  does not return. For a sequence of items after the required tokens: when the sequence
  without its tokens that are no flag parses successfully, so does the whole sequence, with
  the same container, and \<^verbatim>\<open>stderr\<close> holds one warning per such token, in order.
\<close>

theorem unknown_token_warns_and_continues:
  fixes P :: "('f::zero) platform" and D :: "'f decls"
  shows "(i < length argv \<and> argv ! i \<notin> set (flag_tokens D) \<longrightarrow>
      loop_body P D argc argv i a e =
        Continue (i + 1) a (e @ [''Warning: Ignoring invalid argument '' @ [CHR 0x27] @ argv ! i @ [CHR 0x27]]))
    \<and> (wf_decls D \<and> length reqs = length (REQUIRED_ARGS D) \<and> list_all (item_declared D) items
        \<and> parse_args P D
             (int (length (prog # reqs @ tokens_of_items (filter (\<lambda>it. \<not> is_Other it) items))))
             (Some (prog # reqs @ tokens_of_items (filter (\<lambda>it. \<not> is_Other it) items))) args =
           Return 1 a' e' \<longrightarrow>
        parse_args P D (int (length (prog # reqs @ tokens_of_items items)))
             (Some (prog # reqs @ tokens_of_items items)) args =
           Return 1 a' (map (\<lambda>it. ''Warning: Ignoring invalid argument '' @ [CHR 0x27] @ hd (tokens_of it)
                                @ [CHR 0x27])
                         (filter is_Other items)))"
proof (intro conjI impI)
  assume "i < length argv \<and> argv ! i \<notin> set (flag_tokens D)"
  then show "loop_body P D argc argv i a e =
        Continue (i + 1) a (e @ [''Warning: Ignoring invalid argument '' @ [CHR 0x27] @ argv ! i @ [CHR 0x27]])"
    by (simp add: loop_body_unknown squote_def)
next
  let ?known = "filter (\<lambda>it. \<not> is_Other it) items"
  assume h: "wf_decls D \<and> length reqs = length (REQUIRED_ARGS D) \<and> list_all (item_declared D) items
        \<and> parse_args P D (int (length (prog # reqs @ tokens_of_items ?known)))
             (Some (prog # reqs @ tokens_of_items ?known)) args = Return 1 a' e'"
  then have wf: "wf_decls D" and len: "length reqs = length (REQUIRED_ARGS D)"
    and decl: "list_all (item_declared D) items"
    and p: "parse_args P D (int (length (prog # reqs @ tokens_of_items ?known)))
             (Some (prog # reqs @ tokens_of_items ?known)) args = Return 1 a' e'"
    by blast+
  from decl have dk: "list_all (item_declared D) ?known" by (simp add: list_all_iff)
  from parse_args_success_converts[OF wf len dk p]
  have rc: "required_convert P D reqs" and ck: "list_all (item_converts P D) ?known" by simp_all
  from ck have c: "list_all (item_converts P D) items" by (simp add: item_converts_known)
  from parse_args_items[OF wf len rc dk ck, of prog args] p
  have a': "a' = fold (item_write P D) items (fold (req_write P) (zip (REQUIRED_ARGS D) reqs) args)"
    by (simp add: fold_item_write_known)
  have w: "concat (map item_warning items) =
      map (\<lambda>it. ''Warning: Ignoring invalid argument '' @ [CHR 0x27] @ hd (tokens_of it) @ [CHR 0x27])
        (filter is_Other items)"
  proof (induction items)
    case Nil
    then show ?case by simp
  next
    case (Cons it items)
    then show ?case by (cases it) (simp_all add: squote_def)
  qed
  show "parse_args P D (int (length (prog # reqs @ tokens_of_items items)))
             (Some (prog # reqs @ tokens_of_items items)) args =
           Return 1 a' (map (\<lambda>it. ''Warning: Ignoring invalid argument '' @ [CHR 0x27] @ hd (tokens_of it)
                                @ [CHR 0x27])
                         (filter is_Other items))"
    unfolding a' w[symmetric] by (rule parse_args_items[OF wf len rc decl c])
qed

lemma example_parse_verbose:
  "parse_args lp64 example_decls 3 (Some [''prog'', ''5'', ''--verbose''])
     (make_default_args example_decls) =
   Return 1 ((make_default_args example_decls)(''count'' \<mapsto> V_int 5, ''verbose'' \<mapsto> V_bool True)) []"
  by (simp add: parse_args_def example_decls_def REQUIRED_ARG_COUNT_def
      walk.simps loop_body_def parser_defs lp64_def strtoll_def strto_scan_def isspace_def
      is_digit_def digit_val_def del: fun_upd_apply)

theorem unknown_token_warns_and_continues_witness:
  "(2 < length [''prog'', ''5'', ''--unknownflag'', ''--verbose'']
    \<and> [''prog'', ''5'', ''--unknownflag'', ''--verbose''] ! 2 \<notin> set (flag_tokens example_decls)
    \<and> loop_body lp64 example_decls 4 [''prog'', ''5'', ''--unknownflag'', ''--verbose''] 2
         (make_default_args example_decls) [] =
       Continue 3 (make_default_args example_decls)
         [''Warning: Ignoring invalid argument '--unknownflag'' @ [CHR 0x27]])
   \<and> wf_decls example_decls
   \<and> length [''5''] = length (REQUIRED_ARGS example_decls)
   \<and> list_all (item_declared example_decls) [Other ''--unknownflag'', Flag ''--verbose'']
   \<and> parse_args lp64 example_decls 3 (Some [''prog'', ''5'', ''--verbose''])
        (make_default_args example_decls) =
      Return 1 ((make_default_args example_decls)(''count'' \<mapsto> V_int 5, ''verbose'' \<mapsto> V_bool True)) []
   \<and> parse_args lp64 example_decls 4 (Some [''prog'', ''5'', ''--unknownflag'', ''--verbose''])
        (make_default_args example_decls) =
      Return 1 ((make_default_args example_decls)(''count'' \<mapsto> V_int 5, ''verbose'' \<mapsto> V_bool True))
        [''Warning: Ignoring invalid argument '--unknownflag'' @ [CHR 0x27]]"
proof -
  let ?av = "[''prog'', ''5'', ''--unknownflag'', ''--verbose'']"
  let ?items = "[Other ''--unknownflag'', Flag ''--verbose'']"
  let ?a = "(make_default_args example_decls)(''count'' \<mapsto> V_int 5, ''verbose'' \<mapsto> V_bool True)"
  note t = unknown_token_warns_and_continues[where P = lp64 and D = example_decls]
  have s1: "2 < length ?av \<and> ?av ! 2 \<notin> set (flag_tokens example_decls)"
    by (simp add: flag_tokens_def example_decls_def)
  from t[THEN conjunct1, rule_format, OF s1, of 4 "make_default_args example_decls" "[]"]
  have l: "loop_body lp64 example_decls 4 ?av 2 (make_default_args example_decls) [] =
       Continue 3 (make_default_args example_decls)
         [''Warning: Ignoring invalid argument '--unknownflag'' @ [CHR 0x27]]"
    by simp
  have h2: "length [''5''] = length (REQUIRED_ARGS example_decls)"
    by (simp add: example_decls_def)
  have h3: "list_all (item_declared example_decls) ?items"
    by (simp add: example_decls_def flag_tokens_def)
  have s2: "wf_decls example_decls \<and> length [''5''] = length (REQUIRED_ARGS example_decls)
      \<and> list_all (item_declared example_decls) ?items
      \<and> parse_args lp64 example_decls
           (int (length (''prog'' # [''5''] @ tokens_of_items (filter (\<lambda>it. \<not> is_Other it) ?items))))
           (Some (''prog'' # [''5''] @ tokens_of_items (filter (\<lambda>it. \<not> is_Other it) ?items)))
           (make_default_args example_decls) = Return 1 ?a []"
  proof -
    have e: "''prog'' # [''5''] @ tokens_of_items (filter (\<lambda>it. \<not> is_Other it) ?items) =
        [''prog'', ''5'', ''--verbose'']"
      by (simp add: tokens_of_items_def)
    have "parse_args lp64 example_decls
           (int (length (''prog'' # [''5''] @ tokens_of_items (filter (\<lambda>it. \<not> is_Other it) ?items))))
           (Some (''prog'' # [''5''] @ tokens_of_items (filter (\<lambda>it. \<not> is_Other it) ?items)))
           (make_default_args example_decls) = Return 1 ?a []"
      unfolding e using example_parse_verbose by simp
    with example_decls_wf h2 h3 show ?thesis by blast
  qed
  from t[THEN conjunct2, rule_format, OF s2]
  have p: "parse_args lp64 example_decls 4 (Some ?av) (make_default_args example_decls) =
      Return 1 ?a [''Warning: Ignoring invalid argument '--unknownflag'' @ [CHR 0x27]]"
    by (simp add: tokens_of_items_def)
  from s1 l example_decls_wf h2 h3 example_parse_verbose p show ?thesis by blast
qed

text \<open>
  Claim C10. A round of the loop at a token that is no flag ends in the loop's \<^verbatim>\<open>i++\<close> with the
  container it started with: no field is written. The loop goes on from the next index
  with that container and the warning added to \<^verbatim>\<open>stderr\<close>.
\<close>

theorem unknown_token_writes_no_field:
  assumes "i < length argv" and "int i < argc" and "argv ! i \<notin> set (flag_tokens D)"
  shows "(\<exists>e'. loop_body P D argc argv i a e = Continue (i + 1) a e')
    \<and> walk P D argc argv i a e =
        walk P D argc argv (i + 1) a
          (e @ [''Warning: Ignoring invalid argument '' @ squote (argv ! i)])"
proof -
  note l = loop_body_unknown[OF assms(1,3), of P argc a e]
  from l walk_step[OF assms(2) l] show ?thesis by simp
qed

theorem unknown_token_writes_no_field_witness:
  "2 < length [''prog'', ''5'', ''--unknownflag'', ''--verbose'']
   \<and> int 2 < 4
   \<and> [''prog'', ''5'', ''--unknownflag'', ''--verbose''] ! 2 \<notin> set (flag_tokens example_decls)
   \<and> (\<exists>e'. loop_body lp64 example_decls 4 [''prog'', ''5'', ''--unknownflag'', ''--verbose''] 2
         ((make_default_args example_decls)(''count'' \<mapsto> V_int 5)) [] =
       Continue 3 ((make_default_args example_decls)(''count'' \<mapsto> V_int 5)) e')
   \<and> walk lp64 example_decls 4 [''prog'', ''5'', ''--unknownflag'', ''--verbose''] 2
         ((make_default_args example_decls)(''count'' \<mapsto> V_int 5)) [] =
       walk lp64 example_decls 4 [''prog'', ''5'', ''--unknownflag'', ''--verbose''] 3
         ((make_default_args example_decls)(''count'' \<mapsto> V_int 5))
         [''Warning: Ignoring invalid argument '' @ squote ''--unknownflag'']"
proof -
  let ?av = "[''prog'', ''5'', ''--unknownflag'', ''--verbose'']"
  have h1: "2 < length ?av" by simp
  have h2: "int 2 < 4" by simp
  have h3: "?av ! 2 \<notin> set (flag_tokens example_decls)"
    by (simp add: flag_tokens_def example_decls_def)
  from unknown_token_writes_no_field[OF h1 h2 h3, of lp64
      "(make_default_args example_decls)(''count'' \<mapsto> V_int 5)" "[]"] h1 h2 h3
  show ?thesis by (simp del: fun_upd_apply)
qed

section \<open>Claims about a repeated optional flag\<close>

text \<open>
  Claim C9. After required tokens that convert, let the items include the flag of an
  optional declaration more than once (or once). The value after each occurrence is
  converted: when the value of any occurrence does not convert, \<^verbatim>\<open>parse_args\<close> returns 0.
  When \<^verbatim>\<open>parse_args\<close> returns 1, the field holds the converted value of the last
  occurrence.
\<close>

theorem repeated_optional_flag:
  assumes "wf_decls D"
    and "length reqs = length (REQUIRED_ARGS D)"
    and "required_convert P D reqs"
    and "list_all (item_declared D) items"
    and "d \<in> set (OPTIONAL_ARGS D)"
  shows "((\<exists>v. Opt (o_flag d) v \<in> set items \<and> \<not> conv_ok (parser_of P (o_type d) (Some v))) \<longrightarrow>
       (\<exists>a e. parse_args P D (int (length (prog # reqs @ tokens_of_items items)))
                 (Some (prog # reqs @ tokens_of_items items)) args = Return 0 a e))
    \<and> (\<forall>a e pre v post.
         parse_args P D (int (length (prog # reqs @ tokens_of_items items)))
           (Some (prog # reqs @ tokens_of_items items)) args = Return 1 a e
         \<and> items = pre @ Opt (o_flag d) v # post \<and> (\<forall>w. Opt (o_flag d) w \<notin> set post) \<longrightarrow>
         a (o_name d) = Some (conv_value (parser_of P (o_type d) (Some v))))"
proof (intro conjI impI allI)
  assume "\<exists>v. Opt (o_flag d) v \<in> set items \<and> \<not> conv_ok (parser_of P (o_type d) (Some v))"
  then obtain v where v: "Opt (o_flag d) v \<in> set items"
    "\<not> conv_ok (parser_of P (o_type d) (Some v))" by blast
  from v(2) have "\<not> item_converts P D (Opt (o_flag d) v)"
    using item_converts_Opt[OF assms(1) find_optional[OF wf_decls_flags(1)[OF assms(1)] assms(5)]]
    by simp
  with v(1) have "\<not> list_all (item_converts P D) items"
    unfolding list_all_iff by blast
  then have "\<not> (required_convert P D reqs \<and> list_all (item_converts P D) items)"
    by simp
  then show "\<exists>a e. parse_args P D (int (length (prog # reqs @ tokens_of_items items)))
                 (Some (prog # reqs @ tokens_of_items items)) args = Return 0 a e"
    by (rule parse_args_items_fail[OF assms(1,2,4)])
next
  fix a e pre v post
  assume h: "parse_args P D (int (length (prog # reqs @ tokens_of_items items)))
           (Some (prog # reqs @ tokens_of_items items)) args = Return 1 a e
         \<and> items = pre @ Opt (o_flag d) v # post \<and> (\<forall>w. Opt (o_flag d) w \<notin> set post)"
  then have p: "parse_args P D (int (length (prog # reqs @ tokens_of_items items)))
           (Some (prog # reqs @ tokens_of_items items)) args = Return 1 a e"
    and s: "items = pre @ Opt (o_flag d) v # post" "\<forall>w. Opt (o_flag d) w \<notin> set post"
    by blast+
  from parse_args_success_converts(2)[OF assms(1,2,4) p]
  have c: "list_all (item_converts P D) items" .
  from parse_args_items[OF assms(1,2,3,4) c, of prog args] p
  have "a = fold (item_write P D) items (fold (req_write P) (zip (REQUIRED_ARGS D) reqs) args)"
    by simp
  then show "a (o_name d) = Some (conv_value (parser_of P (o_type d) (Some v)))"
    using fold_item_write_optional_last[OF assms(1,5) s] by simp
qed

theorem repeated_optional_flag_witness:
  "wf_decls example_decls
   \<and> length [''5''] = length (REQUIRED_ARGS example_decls)
   \<and> required_convert lp64 example_decls [''5'']
   \<and> list_all (item_declared example_decls) [Opt ''--name'' ''a'', Opt ''--name'' ''b'']
   \<and> list_all (item_declared example_decls) [Opt ''--name'' [], Opt ''--name'' ''b'']
   \<and> hd (OPTIONAL_ARGS example_decls) \<in> set (OPTIONAL_ARGS example_decls)
   \<and> o_flag (hd (OPTIONAL_ARGS example_decls)) = ''--name''
   \<and> \<not> conv_ok (parser_of lp64 (o_type (hd (OPTIONAL_ARGS example_decls))) (Some []))
   \<and> ret_code (parse_args lp64 example_decls 6 (Some [''prog'', ''5'', ''--name'', [], ''--name'', ''b''])
        (make_default_args example_decls)) = Some 0
   \<and> ret_code (parse_args lp64 example_decls 6
        (Some [''prog'', ''5'', ''--name'', ''a'', ''--name'', ''b''])
        (make_default_args example_decls)) = Some 1
   \<and> field (parse_args lp64 example_decls 6
        (Some [''prog'', ''5'', ''--name'', ''a'', ''--name'', ''b''])
        (make_default_args example_decls)) ''name'' = Some (V_str (Some ''b''))"
proof -
  let ?d = "hd (OPTIONAL_ARGS example_decls)"
  let ?ok = "[Opt ''--name'' ''a'', Opt ''--name'' ''b'']"
  let ?bad = "[Opt ''--name'' [], Opt ''--name'' ''b'']"
  let ?a = "(make_default_args example_decls)
      (''count'' \<mapsto> V_int 5, ''name'' \<mapsto> V_str (Some ''a''), ''name'' \<mapsto> V_str (Some ''b''))"
  have h2: "length [''5''] = length (REQUIRED_ARGS example_decls)"
    by (simp add: example_decls_def)
  have h3: "required_convert lp64 example_decls [''5'']"
    by code_simp
  have h4: "list_all (item_declared example_decls) ?ok"
    "list_all (item_declared example_decls) ?bad"
    by (simp_all add: example_decls_def)
  have h5: "?d \<in> set (OPTIONAL_ARGS example_decls)" "o_flag ?d = ''--name''"
    by (simp_all add: example_decls_def)
  have f: "\<not> conv_ok (parser_of lp64 (o_type ?d) (Some []))"
    by (simp add: example_decls_def conv_ok_def easyargs_parse_str_def)
  note bad = repeated_optional_flag[OF example_decls_wf h2 h3 h4(2) h5(1),
      of "''prog''" "make_default_args example_decls", THEN conjunct1, rule_format]
  have "\<exists>v. Opt (o_flag ?d) v \<in> set ?bad \<and> \<not> conv_ok (parser_of lp64 (o_type ?d) (Some v))"
    using f h5(2) by (intro exI[of _ "[]"]) simp
  from bad[OF this]
  have r0: "ret_code (parse_args lp64 example_decls 6
        (Some [''prog'', ''5'', ''--name'', [], ''--name'', ''b''])
        (make_default_args example_decls)) = Some 0"
    by (auto simp: tokens_of_items_def)
  have p: "parse_args lp64 example_decls 6
        (Some [''prog'', ''5'', ''--name'', ''a'', ''--name'', ''b''])
        (make_default_args example_decls) = Return 1 ?a []"
    by (simp add: parse_args_def example_decls_def REQUIRED_ARG_COUNT_def
        walk.simps loop_body_def parser_defs lp64_def strtoll_def strto_scan_def isspace_def
        is_digit_def digit_val_def del: fun_upd_apply)
  note good = repeated_optional_flag[OF example_decls_wf h2 h3 h4(1) h5(1),
      of "''prog''" "make_default_args example_decls", THEN conjunct2, rule_format,
      of ?a "[]" "[Opt ''--name'' ''a'']" "''b''" "[]"]
  have "?a (o_name ?d) = Some (conv_value (parser_of lp64 (o_type ?d) (Some ''b'')))"
    by (rule good) (use p h5(2) in \<open>simp add: tokens_of_items_def del: fun_upd_apply\<close>)
  then have n: "field (parse_args lp64 example_decls 6
        (Some [''prog'', ''5'', ''--name'', ''a'', ''--name'', ''b''])
        (make_default_args example_decls)) ''name'' = Some (V_str (Some ''b''))"
    unfolding p by (simp add: example_decls_def conv_value_def easyargs_parse_str_def)
  have r1: "ret_code (parse_args lp64 example_decls 6
        (Some [''prog'', ''5'', ''--name'', ''a'', ''--name'', ''b''])
        (make_default_args example_decls)) = Some 1"
    unfolding p by simp
  from example_decls_wf h2 h3 h4 h5 f r0 r1 n show ?thesis by blast
qed

section \<open>Claims about the order of the items\<close>

lemma item_write_cases:
  obtains (none) "item_target D it = None" "\<And>a. item_write P D it a = a"
  | (opt) f v d where "it = Opt f v" "d \<in> set (OPTIONAL_ARGS D)" "o_flag d = f"
      "\<And>a. item_write P D it a = a(o_name d \<mapsto> conv_value (parser_of P (o_type d) (Some v)))"
  | (flag) f b where "it = Flag f" "b \<in> set (BOOLEAN_ARGS D)" "b_flag b = f"
      "\<And>a. item_write P D it a = a(b_name b \<mapsto> V_bool True)"
proof (cases it)
  case (Opt f v)
  show ?thesis
  proof (cases "find (\<lambda>d. f = o_flag d) (OPTIONAL_ARGS D)")
    case None
    with Opt show ?thesis by (intro none) simp_all
  next
    case (Some d)
    from find_Some_flag[OF Some] Opt Some show ?thesis by (intro opt[of f v d]) simp_all
  qed
next
  case (Flag f)
  show ?thesis
  proof (cases "find (\<lambda>b. f = b_flag b) (BOOLEAN_ARGS D)")
    case None
    with Flag show ?thesis by (intro none) simp_all
  next
    case (Some b)
    from find_Some_flag[OF Some] Flag Some show ?thesis by (intro flag[of f b]) simp_all
  qed
next
  case (Other t)
  then show ?thesis by (intro none) simp_all
qed

lemma item_write_commute:
  assumes "wf_decls D"
    and "\<forall>f v w. x = Opt f v \<and> y = Opt f w \<longrightarrow> v = w"
  shows "item_write P D x (item_write P D y a) = item_write P D y (item_write P D x a)"
proof (cases rule: item_write_cases[of D x P])
  case none
  then show ?thesis by simp
next
  case (opt f v d)
  show ?thesis
  proof (cases rule: item_write_cases[of D y P])
    case none
    then show ?thesis by simp
  next
    case y: (opt f' w d')
    show ?thesis
    proof (cases "o_name d = o_name d'")
      case True
      with opt(2) y(2) wf_decls_names(2)[OF assms(1)] have "d = d'"
        by (metis distinct_map inj_onD)
      with opt(3) y(3) have "f = f'" by simp
      with assms(2) opt(1) y(1) have "v = w" by blast
      with \<open>f = f'\<close> opt(1) y(1) show ?thesis by simp
    next
      case False
      then show ?thesis unfolding opt(4) y(4) by (simp add: fun_upd_twist)
    qed
  next
    case y: (flag f' b)
    from opt(2) y(2) wf_decls_names(6)[OF assms(1)] have "o_name d \<noteq> b_name b" by blast
    then show ?thesis unfolding opt(4) y(4) by (simp add: fun_upd_twist)
  qed
next
  case (flag f b)
  show ?thesis
  proof (cases rule: item_write_cases[of D y P])
    case none
    then show ?thesis by simp
  next
    case y: (opt f' w d')
    from flag(2) y(2) wf_decls_names(6)[OF assms(1)] have "o_name d' \<noteq> b_name b" by blast
    then show ?thesis unfolding flag(4) y(4) by (simp add: fun_upd_twist)
  next
    case y: (flag f' b')
    show ?thesis
    proof (cases "b_name b = b_name b'")
      case True
      then show ?thesis unfolding flag(4) y(4) by simp
    next
      case False
      then show ?thesis unfolding flag(4) y(4) by (simp add: fun_upd_twist)
    qed
  qed
qed

lemma fold_item_write_permuted:
  assumes "wf_decls D" "mset items' = mset items"
    and "\<forall>f v w. Opt f v \<in> set items \<and> Opt f w \<in> set items \<longrightarrow> v = w"
  shows "fold (item_write P D) items' a = fold (item_write P D) items a"
proof -
  have "fold (item_write P D) items = fold (item_write P D) items'"
  proof (rule fold_multiset_equiv)
    fix x y assume "x \<in> set items" "y \<in> set items"
    with assms(3) have "\<forall>f v w. x = Opt f v \<and> y = Opt f w \<longrightarrow> v = w" by blast
    from item_write_commute[OF assms(1) this, of P]
    show "item_write P D x \<circ> item_write P D y = item_write P D y \<circ> item_write P D x"
      by (simp add: fun_eq_iff)
  next
    show "mset items = mset items'" using assms(2) by simp
  qed
  then show ?thesis by simp
qed

lemma one_value_per_flagD:
  assumes "one_value_per_flag items"
  shows "\<forall>f v w. Opt f v \<in> set items \<and> Opt f w \<in> set items \<longrightarrow> v = w"
proof (intro allI impI)
  fix f v w assume "Opt f v \<in> set items \<and> Opt f w \<in> set items"
  with assms have "same_flag_same_value (Opt f v) (Opt f w)"
    unfolding one_value_per_flag_def list_all_iff by blast
  then show "v = w" by simp
qed

text \<open>
  Claim C4, amended. Let the tokens after the required ones be a sequence of items, and let a
  second call have the same required tokens and the same items in another order. The two
  calls return the same value. When they return 1 and no optional flag starts two items
  with different values, the two containers are equal in every field.
\<close>

theorem parse_args_order_of_items:
  assumes "wf_decls D"
    and "length reqs = length (REQUIRED_ARGS D)"
    and "list_all (item_declared D) items"
    and "mset items' = mset items"
  shows "ret_code (parse_args P D (int (length (prog # reqs @ tokens_of_items items')))
             (Some (prog # reqs @ tokens_of_items items')) args) =
         ret_code (parse_args P D (int (length (prog # reqs @ tokens_of_items items)))
             (Some (prog # reqs @ tokens_of_items items)) args)
    \<and> (ret_code (parse_args P D (int (length (prog # reqs @ tokens_of_items items)))
             (Some (prog # reqs @ tokens_of_items items)) args) = Some 1
        \<and> one_value_per_flag items \<longrightarrow>
        container (parse_args P D (int (length (prog # reqs @ tokens_of_items items')))
             (Some (prog # reqs @ tokens_of_items items')) args) =
        container (parse_args P D (int (length (prog # reqs @ tokens_of_items items)))
             (Some (prog # reqs @ tokens_of_items items)) args))"
proof -
  from assms(4) have s: "set items' = set items" by (rule mset_eq_setD)
  with assms(3) have d': "list_all (item_declared D) items'" by (simp add: list_all_iff)
  show ?thesis
  proof (cases "required_convert P D reqs \<and> list_all (item_converts P D) items")
    case True
    then have rc: "required_convert P D reqs" and c: "list_all (item_converts P D) items"
      by simp_all
    from c s have c': "list_all (item_converts P D) items'" by (simp add: list_all_iff)
    note p = parse_args_items[OF assms(1,2) rc assms(3) c, of prog args]
    note p' = parse_args_items[OF assms(1,2) rc d' c', of prog args]
    show ?thesis
      unfolding p p'
      by (auto dest!: one_value_per_flagD intro: fold_item_write_permuted[OF assms(1,4)])
  next
    case False
    with s have f': "\<not> (required_convert P D reqs \<and> list_all (item_converts P D) items')"
      by (simp add: list_all_iff)
    from parse_args_items_fail[OF assms(1,2,3) False, of prog args]
      parse_args_items_fail[OF assms(1,2) d' f', of prog args]
    show ?thesis by auto
  qed
qed

theorem parse_args_order_of_items_witness:
  "wf_decls example_decls
   \<and> length [''5''] = length (REQUIRED_ARGS example_decls)
   \<and> list_all (item_declared example_decls) [Opt ''--name'' ''Ada'', Flag ''--verbose'']
   \<and> mset [Flag ''--verbose'', Opt ''--name'' ''Ada''] = mset [Opt ''--name'' ''Ada'', Flag ''--verbose'']
   \<and> one_value_per_flag [Opt ''--name'' ''Ada'', Flag ''--verbose'']
   \<and> ret_code (parse_args lp64 example_decls 5
        (Some [''prog'', ''5'', ''--name'', ''Ada'', ''--verbose''])
        (make_default_args example_decls)) = Some 1
   \<and> ret_code (parse_args lp64 example_decls 5
        (Some [''prog'', ''5'', ''--verbose'', ''--name'', ''Ada''])
        (make_default_args example_decls)) = Some 1
   \<and> container (parse_args lp64 example_decls 5
        (Some [''prog'', ''5'', ''--verbose'', ''--name'', ''Ada''])
        (make_default_args example_decls)) =
     container (parse_args lp64 example_decls 5
        (Some [''prog'', ''5'', ''--name'', ''Ada'', ''--verbose''])
        (make_default_args example_decls))"
proof -
  let ?items = "[Opt ''--name'' ''Ada'', Flag ''--verbose'']"
  let ?items' = "[Flag ''--verbose'', Opt ''--name'' ''Ada'']"
  have h2: "length [''5''] = length (REQUIRED_ARGS example_decls)"
    by (simp add: example_decls_def)
  have h3: "list_all (item_declared example_decls) ?items"
    by (simp add: example_decls_def)
  have h4: "mset ?items' = mset ?items" by simp
  have h5: "one_value_per_flag ?items" by (simp add: one_value_per_flag_def)
  have r: "ret_code (parse_args lp64 example_decls 5
        (Some [''prog'', ''5'', ''--name'', ''Ada'', ''--verbose''])
        (make_default_args example_decls)) = Some 1"
    by code_simp
  from parse_args_order_of_items[OF example_decls_wf h2 h3 h4, of lp64 "''prog''"
      "make_default_args example_decls"] r h5
  have "ret_code (parse_args lp64 example_decls 5
        (Some [''prog'', ''5'', ''--verbose'', ''--name'', ''Ada''])
        (make_default_args example_decls)) = Some 1"
    and "container (parse_args lp64 example_decls 5
        (Some [''prog'', ''5'', ''--verbose'', ''--name'', ''Ada''])
        (make_default_args example_decls)) =
     container (parse_args lp64 example_decls 5
        (Some [''prog'', ''5'', ''--name'', ''Ada'', ''--verbose''])
        (make_default_args example_decls))"
    by (simp_all add: tokens_of_items_def)
  with example_decls_wf h2 h3 h4 h5 r show ?thesis by blast
qed

text \<open>
  Claim C4 as stated fails in two ways. With the flag \<^verbatim>\<open>--name\<close> given twice, the last value
  wins, so exchanging the two pairs changes the field. And when a value does not convert
  (the empty string for a string), the call returns 0 with the fields written so far,
  which depend on the order.
\<close>

theorem parse_args_order_matters:
  "mset [Opt ''--name'' ''b'', Opt ''--name'' ''a''] = mset [Opt ''--name'' ''a'', Opt ''--name'' ''b'']
   \<and> ret_code (parse_args lp64 example_decls 6
        (Some (''prog'' # [''5''] @ tokens_of_items [Opt ''--name'' ''a'', Opt ''--name'' ''b'']))
        (make_default_args example_decls)) = Some 1
   \<and> field (parse_args lp64 example_decls 6
        (Some (''prog'' # [''5''] @ tokens_of_items [Opt ''--name'' ''a'', Opt ''--name'' ''b'']))
        (make_default_args example_decls)) ''name'' = Some (V_str (Some ''b''))
   \<and> ret_code (parse_args lp64 example_decls 6
        (Some (''prog'' # [''5''] @ tokens_of_items [Opt ''--name'' ''b'', Opt ''--name'' ''a'']))
        (make_default_args example_decls)) = Some 1
   \<and> field (parse_args lp64 example_decls 6
        (Some (''prog'' # [''5''] @ tokens_of_items [Opt ''--name'' ''b'', Opt ''--name'' ''a'']))
        (make_default_args example_decls)) ''name'' = Some (V_str (Some ''a''))
   \<and> mset [Flag ''--verbose'', Opt ''--name'' []] = mset [Opt ''--name'' [], Flag ''--verbose'']
   \<and> ret_code (parse_args lp64 example_decls 5
        (Some (''prog'' # [''5''] @ tokens_of_items [Opt ''--name'' [], Flag ''--verbose'']))
        (make_default_args example_decls)) = Some 0
   \<and> field (parse_args lp64 example_decls 5
        (Some (''prog'' # [''5''] @ tokens_of_items [Opt ''--name'' [], Flag ''--verbose'']))
        (make_default_args example_decls)) ''verbose'' = Some (V_bool False)
   \<and> ret_code (parse_args lp64 example_decls 5
        (Some (''prog'' # [''5''] @ tokens_of_items [Flag ''--verbose'', Opt ''--name'' []]))
        (make_default_args example_decls)) = Some 0
   \<and> field (parse_args lp64 example_decls 5
        (Some (''prog'' # [''5''] @ tokens_of_items [Flag ''--verbose'', Opt ''--name'' []]))
        (make_default_args example_decls)) ''verbose'' = Some (V_bool True)"
proof -
  have m: "mset [Opt ''--name'' ''b'', Opt ''--name'' ''a''] =
      mset [Opt ''--name'' ''a'', Opt ''--name'' ''b'']"
    "mset [Flag ''--verbose'', Opt ''--name'' []] = mset [Opt ''--name'' [], Flag ''--verbose'']"
    by simp_all
  have "ret_code (parse_args lp64 example_decls 6
        (Some (''prog'' # [''5''] @ tokens_of_items [Opt ''--name'' ''a'', Opt ''--name'' ''b'']))
        (make_default_args example_decls)) = Some 1"
    "field (parse_args lp64 example_decls 6
        (Some (''prog'' # [''5''] @ tokens_of_items [Opt ''--name'' ''a'', Opt ''--name'' ''b'']))
        (make_default_args example_decls)) ''name'' = Some (V_str (Some ''b''))"
    "ret_code (parse_args lp64 example_decls 6
        (Some (''prog'' # [''5''] @ tokens_of_items [Opt ''--name'' ''b'', Opt ''--name'' ''a'']))
        (make_default_args example_decls)) = Some 1"
    "field (parse_args lp64 example_decls 6
        (Some (''prog'' # [''5''] @ tokens_of_items [Opt ''--name'' ''b'', Opt ''--name'' ''a'']))
        (make_default_args example_decls)) ''name'' = Some (V_str (Some ''a''))"
    "ret_code (parse_args lp64 example_decls 5
        (Some (''prog'' # [''5''] @ tokens_of_items [Opt ''--name'' [], Flag ''--verbose'']))
        (make_default_args example_decls)) = Some 0"
    "field (parse_args lp64 example_decls 5
        (Some (''prog'' # [''5''] @ tokens_of_items [Opt ''--name'' [], Flag ''--verbose'']))
        (make_default_args example_decls)) ''verbose'' = Some (V_bool False)"
    "ret_code (parse_args lp64 example_decls 5
        (Some (''prog'' # [''5''] @ tokens_of_items [Flag ''--verbose'', Opt ''--name'' []]))
        (make_default_args example_decls)) = Some 0"
    "field (parse_args lp64 example_decls 5
        (Some (''prog'' # [''5''] @ tokens_of_items [Flag ''--verbose'', Opt ''--name'' []]))
        (make_default_args example_decls)) ''verbose'' = Some (V_bool True)"
    by code_simp+
  with m show ?thesis by blast
qed

section \<open>Claims about the arity failures\<close>

lemma walk_list_append:
  "walk_list P D ts a e = Return 1 a' e' \<Longrightarrow>
   walk_list P D (ts @ us) a e = walk_list P D us a' e'"
proof (induction ts arbitrary: a e rule: length_induct)
  case (1 ts)
  note IH = "1.IH"[rule_format]
  show ?case
  proof (cases ts)
    case Nil
    with "1.prems" show ?thesis by simp
  next
    case (Cons t ts1)
    show ?thesis
    proof (cases "find (\<lambda>d. t = o_flag d) (OPTIONAL_ARGS D)")
      case None
      show ?thesis
      proof (cases "find (\<lambda>b. t = b_flag b) (BOOLEAN_ARGS D)")
        case N: None
        from "1.prems" Cons None N have "walk_list P D ts1 a
            (e @ [''Warning: Ignoring invalid argument '' @ squote t]) = Return 1 a' e'" by simp
        from IH[OF _ this] Cons None N show ?thesis by simp
      next
        case (Some b)
        from "1.prems" Cons None Some have "walk_list P D ts1 (a(b_name b \<mapsto> V_bool True)) e =
            Return 1 a' e'" by simp
        from IH[OF _ this] Cons None Some show ?thesis by simp
      qed
    next
      case (Some d)
      show ?thesis
      proof (cases ts1)
        case Nil
        with "1.prems" Cons Some show ?thesis by simp
      next
        case C2: (Cons v ts2)
        obtain x ok m where p: "parser_of P (o_type d) (Some v) = (x, ok, m)"
          by (cases "parser_of P (o_type d) (Some v)") auto
        show ?thesis
        proof (cases ok)
          case False
          with "1.prems" Cons Some C2 p show ?thesis by simp
        next
          case True
          from "1.prems" Cons Some C2 p True
          have "walk_list P D ts2 (a(o_name d \<mapsto> x)) (e @ m) = Return 1 a' e'" by simp
          from IH[OF _ this] Cons C2
          have "walk_list P D (ts2 @ us) (a(o_name d \<mapsto> x)) (e @ m) = walk_list P D us a' e'"
            by simp
          with Cons Some C2 p True show ?thesis by simp
        qed
      qed
    qed
  qed
qed

lemma walk_list_single_optional:
  assumes "f \<in> o_flag ` set (OPTIONAL_ARGS D)"
  shows "walk_list P D [f] a e =
     Return 0 a (e @ [''Error: option '' @ squote f @ '' requires a value.''])"
proof -
  from assms have "find (\<lambda>d. f = o_flag d) (OPTIONAL_ARGS D) \<noteq> None"
    by (simp add: find_None_flag)
  then obtain d where d: "find (\<lambda>d. f = o_flag d) (OPTIONAL_ARGS D) = Some d" by auto
  from find_Some_flag[OF d] d show ?thesis by simp
qed

text \<open>How the loop can return 0: at a value that does not convert, or at a last flag.\<close>

lemma walk_list_fail_cases:
  "walk_list P D ts a e = Return 0 a' e' \<Longrightarrow>
   (\<exists>pre f v post d a1 e1. ts = pre @ f # v # post \<and> walk_list P D pre a e = Return 1 a1 e1
      \<and> find (\<lambda>d. f = o_flag d) (OPTIONAL_ARGS D) = Some d
      \<and> \<not> conv_ok (parser_of P (o_type d) (Some v)))
   \<or> (\<exists>pre f a1 e1. ts = pre @ [f] \<and> walk_list P D pre a e = Return 1 a1 e1
      \<and> f \<in> o_flag ` set (OPTIONAL_ARGS D))"
proof (induction ts arbitrary: a e rule: length_induct)
  case (1 ts)
  note IH = "1.IH"[rule_format]
  let ?goal = "\<lambda>ts a e.
   (\<exists>pre f v post d a1 e1. ts = pre @ f # v # post \<and> walk_list P D pre a e = Return 1 a1 e1
      \<and> find (\<lambda>d. f = o_flag d) (OPTIONAL_ARGS D) = Some d
      \<and> \<not> conv_ok (parser_of P (o_type d) (Some v)))
   \<or> (\<exists>pre f a1 e1. ts = pre @ [f] \<and> walk_list P D pre a e = Return 1 a1 e1
      \<and> f \<in> o_flag ` set (OPTIONAL_ARGS D))"
  have lift: "?goal (us @ ts') a e"
    if g: "?goal ts' a1 e1" and w: "\<And>q. walk_list P D (us @ q) a e = walk_list P D q a1 e1"
    for us ts' a1 e1
    using g
  proof (elim disjE exE conjE)
    fix pre f v post d a2 e2
    assume "ts' = pre @ f # v # post" "walk_list P D pre a1 e1 = Return 1 a2 e2"
      "find (\<lambda>d. f = o_flag d) (OPTIONAL_ARGS D) = Some d"
      "\<not> conv_ok (parser_of P (o_type d) (Some v))"
    then have "us @ ts' = (us @ pre) @ f # v # post \<and> walk_list P D (us @ pre) a e = Return 1 a2 e2
      \<and> find (\<lambda>d. f = o_flag d) (OPTIONAL_ARGS D) = Some d
      \<and> \<not> conv_ok (parser_of P (o_type d) (Some v))"
      using w[of pre] by simp
    then show ?thesis by blast
  next
    fix pre f a2 e2
    assume "ts' = pre @ [f]" "walk_list P D pre a1 e1 = Return 1 a2 e2"
      "f \<in> o_flag ` set (OPTIONAL_ARGS D)"
    then have "us @ ts' = (us @ pre) @ [f] \<and> walk_list P D (us @ pre) a e = Return 1 a2 e2
      \<and> f \<in> o_flag ` set (OPTIONAL_ARGS D)"
      using w[of pre] by simp
    then show ?thesis by blast
  qed
  show ?case
  proof (cases ts)
    case Nil
    with "1.prems" show ?thesis by simp
  next
    case (Cons t ts1)
    show ?thesis
    proof (cases "find (\<lambda>d. t = o_flag d) (OPTIONAL_ARGS D)")
      case None
      show ?thesis
      proof (cases "find (\<lambda>b. t = b_flag b) (BOOLEAN_ARGS D)")
        case N: None
        from "1.prems" Cons None N have "walk_list P D ts1 a
            (e @ [''Warning: Ignoring invalid argument '' @ squote t]) = Return 0 a' e'" by simp
        from IH[OF _ this] Cons have "?goal ts1 a (e @ [''Warning: Ignoring invalid argument '' @ squote t])"
          by simp
        from lift[OF this, of "[t]"] None N Cons show ?thesis by simp
      next
        case (Some b)
        from "1.prems" Cons None Some have "walk_list P D ts1 (a(b_name b \<mapsto> V_bool True)) e =
            Return 0 a' e'" by simp
        from IH[OF _ this] Cons have "?goal ts1 (a(b_name b \<mapsto> V_bool True)) e" by simp
        from lift[OF this, of "[t]"] None Some Cons show ?thesis by simp
      qed
    next
      case (Some d)
      show ?thesis
      proof (cases ts1)
        case Nil
        from find_Some_flag[OF Some] have "t \<in> o_flag ` set (OPTIONAL_ARGS D)" by auto
        then have "ts = [] @ [t] \<and> walk_list P D [] a e = Return 1 a e
            \<and> t \<in> o_flag ` set (OPTIONAL_ARGS D)"
          using Cons Nil by simp
        then show ?thesis by blast
      next
        case C2: (Cons v ts2)
        obtain x ok m where p: "parser_of P (o_type d) (Some v) = (x, ok, m)"
          by (cases "parser_of P (o_type d) (Some v)") auto
        show ?thesis
        proof (cases ok)
          case False
          with p have "\<not> conv_ok (parser_of P (o_type d) (Some v))" by (simp add: conv_ok_def)
          then have "ts = [] @ t # v # ts2 \<and> walk_list P D [] a e = Return 1 a e
              \<and> find (\<lambda>d. t = o_flag d) (OPTIONAL_ARGS D) = Some d
              \<and> \<not> conv_ok (parser_of P (o_type d) (Some v))"
            using Cons C2 Some by simp
          then show ?thesis by blast
        next
          case True
          from "1.prems" Cons Some C2 p True
          have "walk_list P D ts2 (a(o_name d \<mapsto> x)) (e @ m) = Return 0 a' e'" by simp
          from IH[OF _ this] Cons C2 have "?goal ts2 (a(o_name d \<mapsto> x)) (e @ m)" by simp
          from lift[OF this, of "[t, v]"] Some p True Cons C2 show ?thesis by simp
        qed
      qed
    qed
  qed
qed

lemma parse_args_is_walk_list:
  assumes "length reqs = length (REQUIRED_ARGS D)"
    "parse_args P D (int (length (prog # reqs @ ts))) (Some (prog # reqs @ ts)) args = Return r a e"
    "r = 1 \<or> required_convert P D reqs"
  shows "required_convert P D reqs"
    "walk_list P D ts (fold (req_write P) (zip (REQUIRED_ARGS D) reqs) args) [] = Return r a e"
proof -
  show rc: "required_convert P D reqs"
  proof (rule ccontr)
    assume n: "\<not> required_convert P D reqs"
    from parse_args_required_fail[OF assms(1) n, of prog ts args] assms(2,3) n
    show False by auto
  qed
  from parse_args_tokens[OF assms(1) rc, of prog ts args] assms(2)
  show "walk_list P D ts (fold (req_write P) (zip (REQUIRED_ARGS D) reqs) args) [] = Return r a e"
    by simp
qed

text \<open>
  Claim C2, amended. \<^verbatim>\<open>parse_args\<close> returns 0 for a lack of tokens in two situations. First,
  when \<^verbatim>\<open>argv\<close> is null or \<^verbatim>\<open>argc\<close> is less than 1 + \<^verbatim>\<open>REQUIRED_ARG_COUNT\<close>: then nothing is
  converted and the container is untouched. Second, when the loop reaches the last token
  and that token is the flag of an optional declaration: the tokens before it parse
  successfully, and the call returns 0 with the container and the output of that parse
  and the one line \<^verbatim>\<open>requires a value\<close>; no converter runs for the flag. Every other return of 0
  is a conversion failure: of a required token, or of the value after an optional flag
  that the loop reached. A flag that is last only as a required token or as the value of
  the flag before it is not the second situation.
\<close>

theorem parse_args_arity_failures:
  fixes P :: "('f::zero) platform" and D :: "'f decls"
  shows "(argv = None \<or> argc < 1 + REQUIRED_ARG_COUNT D \<longrightarrow>
      parse_args P D argc argv args =
        Return 0 args [if argv = None \<or> argc = 0 then ''Internal error: null args or argv.''
                       else ''Not all required arguments included.''])
    \<and> (length reqs = length (REQUIRED_ARGS D) \<and> f \<in> o_flag ` set (OPTIONAL_ARGS D)
        \<and> parse_args P D (int (length (prog # reqs @ pre))) (Some (prog # reqs @ pre)) args =
             Return 1 a e \<longrightarrow>
        parse_args P D (int (length (prog # reqs @ pre @ [f]))) (Some (prog # reqs @ pre @ [f])) args =
          Return 0 a (e @ [''Error: option '' @ squote f @ '' requires a value.'']))
    \<and> (length reqs = length (REQUIRED_ARGS D)
        \<and> parse_args P D (int (length (prog # reqs @ ts))) (Some (prog # reqs @ ts)) args =
             Return 0 a' e' \<longrightarrow>
        \<not> required_convert P D reqs
        \<or> (\<exists>pre f v post d a1 e1. ts = pre @ f # v # post
              \<and> parse_args P D (int (length (prog # reqs @ pre))) (Some (prog # reqs @ pre)) args =
                  Return 1 a1 e1
              \<and> find (\<lambda>d. f = o_flag d) (OPTIONAL_ARGS D) = Some d
              \<and> \<not> conv_ok (parser_of P (o_type d) (Some v)))
        \<or> (\<exists>pre f a1 e1. ts = pre @ [f]
              \<and> parse_args P D (int (length (prog # reqs @ pre))) (Some (prog # reqs @ pre)) args =
                  Return 1 a1 e1
              \<and> f \<in> o_flag ` set (OPTIONAL_ARGS D)))"
proof (intro conjI impI)
  assume "argv = None \<or> argc < 1 + REQUIRED_ARG_COUNT D"
  then show "parse_args P D argc argv args =
        Return 0 args [if argv = None \<or> argc = 0 then ''Internal error: null args or argv.''
                       else ''Not all required arguments included.'']"
    by (auto simp: parse_args_def REQUIRED_ARG_COUNT_def split: option.splits)
next
  assume h: "length reqs = length (REQUIRED_ARGS D) \<and> f \<in> o_flag ` set (OPTIONAL_ARGS D)
        \<and> parse_args P D (int (length (prog # reqs @ pre))) (Some (prog # reqs @ pre)) args =
             Return 1 a e"
  then have len: "length reqs = length (REQUIRED_ARGS D)"
    and f: "f \<in> o_flag ` set (OPTIONAL_ARGS D)"
    and p: "parse_args P D (int (length (prog # reqs @ pre))) (Some (prog # reqs @ pre)) args =
             Return 1 a e"
    by blast+
  let ?a0 = "fold (req_write P) (zip (REQUIRED_ARGS D) reqs) args"
  from parse_args_is_walk_list[OF len p]
  have rc: "required_convert P D reqs" and w: "walk_list P D pre ?a0 [] = Return 1 a e"
    by simp_all
  have "parse_args P D (int (length (prog # reqs @ pre @ [f]))) (Some (prog # reqs @ pre @ [f])) args =
      walk_list P D (pre @ [f]) ?a0 []"
    by (rule parse_args_tokens[OF len rc])
  also have "\<dots> = walk_list P D [f] a e"
    by (rule walk_list_append[OF w])
  also have "\<dots> = Return 0 a (e @ [''Error: option '' @ squote f @ '' requires a value.''])"
    by (rule walk_list_single_optional[OF f])
  finally show "parse_args P D (int (length (prog # reqs @ pre @ [f])))
      (Some (prog # reqs @ pre @ [f])) args =
      Return 0 a (e @ [''Error: option '' @ squote f @ '' requires a value.''])" .
next
  assume h: "length reqs = length (REQUIRED_ARGS D)
        \<and> parse_args P D (int (length (prog # reqs @ ts))) (Some (prog # reqs @ ts)) args =
             Return 0 a' e'"
  then have len: "length reqs = length (REQUIRED_ARGS D)"
    and p: "parse_args P D (int (length (prog # reqs @ ts))) (Some (prog # reqs @ ts)) args =
             Return 0 a' e'"
    by blast+
  let ?a0 = "fold (req_write P) (zip (REQUIRED_ARGS D) reqs) args"
  show "\<not> required_convert P D reqs
        \<or> (\<exists>pre f v post d a1 e1. ts = pre @ f # v # post
              \<and> parse_args P D (int (length (prog # reqs @ pre))) (Some (prog # reqs @ pre)) args =
                  Return 1 a1 e1
              \<and> find (\<lambda>d. f = o_flag d) (OPTIONAL_ARGS D) = Some d
              \<and> \<not> conv_ok (parser_of P (o_type d) (Some v)))
        \<or> (\<exists>pre f a1 e1. ts = pre @ [f]
              \<and> parse_args P D (int (length (prog # reqs @ pre))) (Some (prog # reqs @ pre)) args =
                  Return 1 a1 e1
              \<and> f \<in> o_flag ` set (OPTIONAL_ARGS D))"
  proof (cases "required_convert P D reqs")
    case False
    then show ?thesis by simp
  next
    case True
    note pt = parse_args_tokens[OF len True, of prog _ args]
    from p have "walk_list P D ts ?a0 [] = Return 0 a' e'" by (simp only: pt)
    from walk_list_fail_cases[OF this] show ?thesis
      unfolding pt by blast
  qed
qed

theorem parse_args_arity_failures_witness:
  "parse_args lp64 example_decls 4 None (make_default_args example_decls) =
     Return 0 (make_default_args example_decls) [''Internal error: null args or argv.'']
   \<and> (1::int) < 1 + REQUIRED_ARG_COUNT example_decls
   \<and> parse_args lp64 example_decls 1 (Some [''prog'']) (make_default_args example_decls) =
     Return 0 (make_default_args example_decls) [''Not all required arguments included.'']
   \<and> length [''5''] = length (REQUIRED_ARGS example_decls)
   \<and> ''--name'' \<in> o_flag ` set (OPTIONAL_ARGS example_decls)
   \<and> parse_args lp64 example_decls 3 (Some [''prog'', ''5'', ''--verbose''])
        (make_default_args example_decls) =
      Return 1 ((make_default_args example_decls)(''count'' \<mapsto> V_int 5, ''verbose'' \<mapsto> V_bool True)) []
   \<and> parse_args lp64 example_decls 4 (Some [''prog'', ''5'', ''--verbose'', ''--name''])
        (make_default_args example_decls) =
      Return 0 ((make_default_args example_decls)(''count'' \<mapsto> V_int 5, ''verbose'' \<mapsto> V_bool True))
        [''Error: option '' @ squote ''--name'' @ '' requires a value.'']
   \<and> required_convert lp64 example_decls [''5'']
   \<and> ((\<exists>pre f v post d a1 e1. [''--verbose'', ''--name''] = pre @ f # v # post
          \<and> parse_args lp64 example_decls (int (length (''prog'' # [''5''] @ pre)))
               (Some (''prog'' # [''5''] @ pre)) (make_default_args example_decls) = Return 1 a1 e1
          \<and> find (\<lambda>d. f = o_flag d) (OPTIONAL_ARGS example_decls) = Some d
          \<and> \<not> conv_ok (parser_of lp64 (o_type d) (Some v)))
        \<or> (\<exists>pre f a1 e1. [''--verbose'', ''--name''] = pre @ [f]
          \<and> parse_args lp64 example_decls (int (length (''prog'' # [''5''] @ pre)))
               (Some (''prog'' # [''5''] @ pre)) (make_default_args example_decls) = Return 1 a1 e1
          \<and> f \<in> o_flag ` set (OPTIONAL_ARGS example_decls)))"
proof -
  let ?init = "make_default_args example_decls"
  let ?fin = "(make_default_args example_decls)(''count'' \<mapsto> V_int 5, ''verbose'' \<mapsto> V_bool True)"
  note t = parse_args_arity_failures[where P = lp64 and D = example_decls and args = ?init]
  from t[where argv = None and argc = 4, THEN conjunct1]
  have c1: "parse_args lp64 example_decls 4 None ?init =
     Return 0 ?init [''Internal error: null args or argv.'']"
    by simp
  have s: "(1::int) < 1 + REQUIRED_ARG_COUNT example_decls"
    by (simp add: REQUIRED_ARG_COUNT_def example_decls_def)
  from t[where argv = "Some [''prog'']" and argc = 1, THEN conjunct1] s
  have c2: "parse_args lp64 example_decls 1 (Some [''prog'']) ?init =
     Return 0 ?init [''Not all required arguments included.'']"
    by simp
  have h2: "length [''5''] = length (REQUIRED_ARGS example_decls)"
    by (simp add: example_decls_def)
  have h3: "''--name'' \<in> o_flag ` set (OPTIONAL_ARGS example_decls)"
    by (simp add: example_decls_def)
  have pk: "parse_args lp64 example_decls (int (length (''prog'' # [''5''] @ [''--verbose''])))
      (Some (''prog'' # [''5''] @ [''--verbose''])) ?init = Return 1 ?fin []"
    using example_parse_verbose by simp
  from t[where reqs = "[''5'']" and f = "''--name''" and prog = "''prog''"
      and pre = "[''--verbose'']" and a = ?fin and e = "[]", THEN conjunct2, THEN conjunct1,
      rule_format, OF conjI[OF h2 conjI[OF h3 pk]]]
  have c3: "parse_args lp64 example_decls 4 (Some [''prog'', ''5'', ''--verbose'', ''--name'']) ?init =
      Return 0 ?fin [''Error: option '' @ squote ''--name'' @ '' requires a value.'']"
    by simp
  have rc: "required_convert lp64 example_decls [''5'']" by code_simp
  have pf: "length [''5''] = length (REQUIRED_ARGS example_decls)
      \<and> parse_args lp64 example_decls (int (length (''prog'' # [''5''] @ [''--verbose'', ''--name''])))
           (Some (''prog'' # [''5''] @ [''--verbose'', ''--name''])) ?init =
         Return 0 ?fin [''Error: option '' @ squote ''--name'' @ '' requires a value.'']"
  proof (rule conjI[OF h2])
    show "parse_args lp64 example_decls
        (int (length (''prog'' # [''5''] @ [''--verbose'', ''--name''])))
        (Some (''prog'' # [''5''] @ [''--verbose'', ''--name''])) ?init =
        Return 0 ?fin [''Error: option '' @ squote ''--name'' @ '' requires a value.'']"
      using c3 by simp
  qed
  from t[where reqs = "[''5'']" and prog = "''prog''" and ts = "[''--verbose'', ''--name'']",
      THEN conjunct2, THEN conjunct2, rule_format, OF pf] rc
  have c4: "(\<exists>pre f v post d a1 e1. [''--verbose'', ''--name''] = pre @ f # v # post
          \<and> parse_args lp64 example_decls (int (length (''prog'' # [''5''] @ pre)))
               (Some (''prog'' # [''5''] @ pre)) ?init = Return 1 a1 e1
          \<and> find (\<lambda>d. f = o_flag d) (OPTIONAL_ARGS example_decls) = Some d
          \<and> \<not> conv_ok (parser_of lp64 (o_type d) (Some v)))
        \<or> (\<exists>pre f a1 e1. [''--verbose'', ''--name''] = pre @ [f]
          \<and> parse_args lp64 example_decls (int (length (''prog'' # [''5''] @ pre)))
               (Some (''prog'' # [''5''] @ pre)) ?init = Return 1 a1 e1
          \<and> f \<in> o_flag ` set (OPTIONAL_ARGS example_decls))"
    by blast
  from c1 s c2 h2 h3 example_parse_verbose c3 rc c4 show ?thesis by blast
qed

text \<open>
  Claim C2 as stated fails where the last token is a flag that the loop does not reach as
  a flag: in \<^verbatim>\<open>prog 5 --name --name\<close> the last token is the flag of the optional declaration, no
  token follows it, and the call returns 1 with the field \<^verbatim>\<open>name\<close> set to \<^verbatim>\<open>--name\<close>.
\<close>

theorem parse_args_last_flag_as_value:
  "last [''prog'', ''5'', ''--name'', ''--name''] \<in> o_flag ` set (OPTIONAL_ARGS example_decls)
   \<and> ret_code (parse_args lp64 example_decls 4 (Some [''prog'', ''5'', ''--name'', ''--name''])
        (make_default_args example_decls)) = Some 1
   \<and> field (parse_args lp64 example_decls 4 (Some [''prog'', ''5'', ''--name'', ''--name''])
        (make_default_args example_decls)) ''name'' = Some (V_str (Some ''--name''))"
proof -
  have "last [''prog'', ''5'', ''--name'', ''--name''] \<in> o_flag ` set (OPTIONAL_ARGS example_decls)"
    by (simp add: example_decls_def)
  moreover have
    "ret_code (parse_args lp64 example_decls 4 (Some [''prog'', ''5'', ''--name'', ''--name''])
        (make_default_args example_decls)) = Some 1"
    "field (parse_args lp64 example_decls 4 (Some [''prog'', ''5'', ''--name'', ''--name''])
        (make_default_args example_decls)) ''name'' = Some (V_str (Some ''--name''))"
    by code_simp+
  ultimately show ?thesis by blast
qed

section \<open>The integer scans on decimal tokens\<close>


























section \<open>Claims about the integer converters\<close>








section \<open>Claims about the help text\<close>

lemma foldl_max:
  "foldl (\<lambda>m x. let len = f x in if len > m then len else m) (m0::int) xs = Max (set (m0 # map f xs))"
proof (induction xs arbitrary: m0)
  case Nil
  then show ?case by simp
next
  case (Cons x xs)
  have "Max (insert (f x) (insert m0 (f ` set xs))) = Max (insert (max m0 (f x)) (f ` set xs))"
    by (cases "f ` set xs = {}") (simp_all add: max.commute max.left_commute)
  with Cons[of "if f x > m0 then f x else m0"] show ?case
    by (simp add: Let_def max_def insert_commute)
qed

lemma max_width_Max: "max_width D = Max (set (0 # widths D))"
proof -
  have m: "Max (set (Max (set (m0 # xs)) # ys)) = Max (set (m0 # xs @ ys))" for m0 :: int and xs ys
  proof (cases "ys = []")
    case True
    then show ?thesis by simp
  next
    case False
    have "Max (set (m0 # xs @ ys)) = max (Max (set (m0 # xs))) (Max (set ys))"
      using False by (simp add: Max_Un[symmetric] Un_insert_left[symmetric] del: Un_insert_left)
    also have "\<dots> = Max (set (Max (set (m0 # xs)) # ys))"
      using False by simp
    finally show ?thesis ..
  qed
  show ?thesis
    unfolding max_width_def foldl_max widths_def
    by (simp only: m map_append append_assoc)
qed

lemma widths_nonneg: "w \<in> set (widths D) \<Longrightarrow> 0 \<le> w"
  by (auto simp: widths_def)

lemma max_width_upper: "w \<in> set (widths D) \<Longrightarrow> w \<le> max_width D"
  unfolding max_width_Max by (rule Max_ge) simp_all

lemma printf_plain:
  "plain_text s \<Longrightarrow> printf P (s @ fmt) args = map_option ((@) s) (printf P fmt args)"
proof (induction s)
  case Nil
  show ?case by (simp add: option.map_ident)
next
  case (Cons c s)
  then show ?case by (auto simp: plain_text_def option.map_comp comp_def)
qed

lemma printf_padding:
  "printf P (''%*s'' @ fmt) (V_int w # V_str (Some []) # args) =
   map_option ((@) (replicate (nat \<bar>w\<bar>) (CHR '' ''))) (printf P fmt args)"
  by (simp add: conversion_def justify_def)

lemma printf_end: "printf P ''\<newline>'' args = Some ''\<newline>''"
  by simp

text \<open>
  With a label and a description that are plain texts, the line of a required declaration is
  aligned at \<^verbatim>\<open>max_width\<close>; and so are, with plain texts, the line of a boolean declaration, and
  the line of an optional declaration up to its default, which the formatter renders.
\<close>

lemma argument_call_plain:
  fixes D :: "'f decls"
  assumes "d \<in> set (REQUIRED_ARGS D)" "plain_text (r_label d)" "plain_text (r_description d)"
  shows "\<exists>line. printf P (fst (argument_call (max_width D) d)) (snd (argument_call (max_width D) d :: _ \<times> 'f val list))
             = Some (line @ ''\<newline>'')
           \<and> aligned_line (max_width D) (required_left d) (r_description d) line"
proof -
  from assms(1) have "int (length (r_label d)) + 2 \<in> set (widths D)" by (auto simp: widths_def)
  from max_width_upper[OF this] have le: "int (length (required_left d)) \<le> max_width D"
    by (simp add: required_left_def)
  have p1: "plain_text (''    <'' @ r_label d @ ''>'')"
    using assms(2) by (simp add: plain_text_def)
  have p2: "plain_text (''    '' @ r_description d)"
    using assms(3) by (simp add: plain_text_def)
  have "printf P ((''    <'' @ r_label d @ ''>'') @ ''%*s'' @ (''    '' @ r_description d) @ ''\<newline>'')
      [V_int (max_width D - int (length (r_label d)) - 2), V_str (Some [])] =
    Some ((''    <'' @ r_label d @ ''>'')
          @ replicate (nat \<bar>max_width D - int (length (r_label d)) - 2\<bar>) (CHR '' '')
          @ (''    '' @ r_description d) @ ''\<newline>'')"
    unfolding printf_plain[OF p1] printf_padding printf_plain[OF p2] printf_end by simp
  moreover have "\<bar>max_width D - int (length (r_label d)) - 2\<bar> =
      max_width D - int (length (required_left d))"
    using le by (simp add: required_left_def)
  ultimately show ?thesis
    using le by (simp add: argument_call_def aligned_line_def required_left_def)
qed

lemma boolean_call_plain:
  fixes D :: "'f decls"
  assumes "b \<in> set (BOOLEAN_ARGS D)" "plain_text (b_flag b)" "plain_text (b_description b)"
  shows "\<exists>line. printf P (fst (boolean_call (max_width D) b)) (snd (boolean_call (max_width D) b :: _ \<times> 'f val list))
             = Some (line @ ''\<newline>'')
           \<and> aligned_line (max_width D) (boolean_left b) (b_description b) line"
proof -
  from assms(1) have "int (length (b_flag b)) \<in> set (widths D)" by (auto simp: widths_def)
  from max_width_upper[OF this] have le: "int (length (boolean_left b)) \<le> max_width D"
    by (simp add: boolean_left_def)
  have p1: "plain_text (''    '' @ b_flag b)"
    using assms(2) by (simp add: plain_text_def)
  have p2: "plain_text (''    '' @ b_description b)"
    using assms(3) by (simp add: plain_text_def)
  have "printf P ((''    '' @ b_flag b) @ ''%*s'' @ (''    '' @ b_description b) @ ''\<newline>'')
      [V_int (max_width D - int (length (b_flag b))), V_str (Some [])] =
    Some ((''    '' @ b_flag b)
          @ replicate (nat \<bar>max_width D - int (length (b_flag b))\<bar>) (CHR '' '')
          @ (''    '' @ b_description b) @ ''\<newline>'')"
    unfolding printf_plain[OF p1] printf_padding printf_plain[OF p2] printf_end by simp
  moreover have "\<bar>max_width D - int (length (b_flag b))\<bar> =
      max_width D - int (length (boolean_left b))"
    using le by (simp add: boolean_left_def)
  ultimately show ?thesis
    using le by (simp add: boolean_call_def aligned_line_def boolean_left_def)
qed

lemma option_call_plain:
  fixes D :: "'f decls"
  assumes "d \<in> set (OPTIONAL_ARGS D)" "plain_text (o_flag d)" "plain_text (o_label d)"
    "plain_text (o_description d)"
    and "printf P (fst (option_call (max_width D) d)) (snd (option_call (max_width D) d)) = Some out"
  shows "\<exists>default. printf P (o_formatter d @ '')\<newline>'') [o_default d] = Some default
           \<and> aligned_line (max_width D) (optional_left d)
               (o_description d @ '' (default: '' @ default) out"
proof -
  from assms(1) have "int (length (o_flag d)) + 1 + int (length (o_label d)) + 2 \<in> set (widths D)"
    by (auto simp: widths_def)
  from max_width_upper[OF this] have le: "int (length (optional_left d)) \<le> max_width D"
    by (simp add: optional_left_def)
  have p1: "plain_text (''    '' @ o_flag d @ '' <'' @ o_label d @ ''>'')"
    using assms(2,3) by (simp add: plain_text_def)
  have p2: "plain_text (''    '' @ o_description d @ '' (default: '')"
    using assms(4) by (simp add: plain_text_def)
  have a: "\<bar>max_width D - int (length (o_label d)) - int (length (o_flag d)) - 3\<bar> =
      max_width D - int (length (optional_left d))"
    using le by (simp add: optional_left_def)
  let ?line = "\<lambda>default. (''    '' @ o_flag d @ '' <'' @ o_label d @ ''>'')
          @ replicate (nat (max_width D - int (length (optional_left d)))) (CHR '' '')
          @ (''    '' @ o_description d @ '' (default: '') @ default"
  have "printf P ((''    '' @ o_flag d @ '' <'' @ o_label d @ ''>'') @ ''%*s''
        @ (''    '' @ o_description d @ '' (default: '') @ o_formatter d @ '')\<newline>'')
      [V_int (max_width D - int (length (o_label d)) - int (length (o_flag d)) - 3),
       V_str (Some []), o_default d] =
    map_option ?line (printf P (o_formatter d @ '')\<newline>'') [o_default d])"
    unfolding printf_plain[OF p1] printf_padding printf_plain[OF p2] a
    by (simp add: option.map_comp comp_def)
  then have "printf P (fst (option_call (max_width D) d)) (snd (option_call (max_width D) d)) =
      map_option ?line (printf P (o_formatter d @ '')\<newline>'') [o_default d])"
    by (simp add: option_call_def)
  with assms(5) obtain default where
    d: "printf P (o_formatter d @ '')\<newline>'') [o_default d] = Some default"
    and o: "out = ?line default"
    by auto
  from o le have "aligned_line (max_width D) (optional_left d)
      (o_description d @ '' (default: '' @ default) out"
    by (simp add: aligned_line_def optional_left_def)
  with d show ?thesis by blast
qed

text \<open>The help text of the example declarations.\<close>

lemma print_help_example:
  "print_help lp64 example_decls (Some ''prog'') =
     Some (unlines
       [''USAGE:'',
        ''    prog <count> [--name <NAME>] [--verbose] '',
        [],
        ''ARGUMENTS:'',
        ''    <count>          Number of repetitions'',
        [],
        ''OPTIONS:'',
        ''    --name <NAME>    Name to greet (default: anon)'',
        ''    --verbose        Print more''])"
proof -
  have w: "widths example_decls = [7, 13, 9]"
    by (simp add: widths_def example_decls_def)
  have mw: "max_width example_decls = 13"
    by (simp add: max_width_Max w)
  show ?thesis
    unfolding print_help_def mw
    by (simp add: example_decls_def argument_call_def option_call_def boolean_call_def
          conversion_def justify_def unlines_def REQUIRED_ARG_COUNT_def OPTIONAL_ARG_COUNT_def
          BOOLEAN_ARG_COUNT_def eval_nat_numeral)
qed

text \<open>
  Claim C7. \<^verbatim>\<open>print_help\<close> computes one width, the greatest over the declarations of the
  length of the label plus 2 (required), of the lengths of the flag and the label plus 3
  (optional) and of the length of the flag (boolean), and pads each line by that width
  minus the length it measured. It measures a label with \<^verbatim>\<open>strlen\<close> and writes it as a part of
  the format of \<^verbatim>\<open>printf\<close>, so a line whose label holds \<^verbatim>\<open>%%\<close> is not padded to the width. For
  the two required declarations with the labels \<^verbatim>\<open>rate%%\<close> and \<^verbatim>\<open>infile\<close> the width is 8. The
  line of the first has the left part \<^verbatim>\<open><rate%>\<close> of 7 characters and no padding, so its
  description stands one column before that of the second line, which is aligned at 8.
\<close>

theorem print_help_percent_label:
  "widths percent_decls = [8, 8]
   \<and> max_width percent_decls = Max (set (widths percent_decls))
   \<and> max_width percent_decls = 8
   \<and> print_help lp64 percent_decls (Some ''prog'') =
       Some (unlines
         [''USAGE:'',
          ''    prog <rate%> <infile> '',
          [],
          ''ARGUMENTS:'',
          ''    <rate%>    Discount'',
          ''    <infile>    Input file'',
          []])
   \<and> \<not> aligned_line 8 ''<rate%>'' ''Discount'' ''    <rate%>    Discount''
   \<and> aligned_line 8 ''<infile>'' ''Input file'' ''    <infile>    Input file''"
proof -
  have w: "widths percent_decls = [8, 8]"
    by (simp add: widths_def percent_decls_def)
  have mw: "max_width percent_decls = 8"
    by (simp add: max_width_Max w)
  have p: "print_help lp64 percent_decls (Some ''prog'') =
       Some (unlines
         [''USAGE:'',
          ''    prog <rate%> <infile> '',
          [],
          ''ARGUMENTS:'',
          ''    <rate%>    Discount'',
          ''    <infile>    Input file'',
          []])"
    unfolding print_help_def mw
    by (simp add: percent_decls_def argument_call_def conversion_def justify_def unlines_def
          REQUIRED_ARG_COUNT_def OPTIONAL_ARG_COUNT_def BOOLEAN_ARG_COUNT_def)
  have n: "\<not> aligned_line 8 ''<rate%>'' ''Discount'' ''    <rate%>    Discount''"
    by (simp add: aligned_line_def)
  have y: "aligned_line 8 ''<infile>'' ''Input file'' ''    <infile>    Input file''"
    by (simp add: aligned_line_def)
  have m: "max_width percent_decls = Max (set (widths percent_decls))"
    unfolding mw w by simp
  from w m mw p n y show ?thesis by blast
qed

end
